theory Spec2Isabelle
  imports Main
begin

section \<open>Data model of the font module\<close>

text \<open>
  Python exceptions are values of \<open>error\<close>; a function that can raise returns
  \<open>error + 'a\<close>, with \<open>Inl\<close> for the exception.
\<close>

datatype error =
    IndexError
  | ResourceMissingError string string
  | OutOfRangeError
  | BufferBoundsError
  | AllocationError nat
  | FormatError
  | RecursionError

type_synonym byte = nat

text \<open>
  An indexed image: its size, its pixels (palette indices, addressed by the pair of
  column \<open>x\<close> and row \<open>y\<close>) and its palette.
\<close>

record image =
  im_w :: nat
  im_h :: nat
  im_px :: "nat \<times> nat \<Rightarrow> nat"
  im_palette :: "nat list"

text \<open>
  The content of one project resource: an indexed image, a structured-text mapping from
  character index to width, or bytes that are neither.
\<close>

datatype resource =
    PngFile image
  | YmlFile "int \<rightharpoonup> int"
  | RawFile "byte list"

type_synonym project = "string \<times> string \<rightharpoonup> resource"

record eb_tileset =
  tile_width :: nat
  tile_height :: nat
  tiles :: "nat list list"

record eb_font =
  num_characters :: nat
  tileset :: eb_tileset
  character_widths :: "nat list"

record eb_credits_font =
  credits_tiles :: "nat list list"
  credits_palette :: "nat list"

text \<open>The pointer table object: its row count and its rows, each a list of fields.\<close>

record pointer_table =
  num_rows :: nat
  rows :: "nat list list"

record font_module =
  font_pointer_table :: pointer_table
  fonts :: "eb_font list"
  credits_font :: eb_credits_font

text \<open>
  The collaborators of \<open>FontModule.py\<close> that live in other modules (address
  translation, the allocator's policy, the codecs of fonts, table rows and the credits
  font, the image size of a font and the shared palette) are parameters of the model.
  Their types fix only what the interface fixes: the codecs are pure functions, and the
  allocator's decision depends on the free ranges and the requested size alone.
\<close>

record externals =
  to_snes_address :: "nat \<Rightarrow> error + nat"
  from_snes_address :: "nat \<Rightarrow> error + nat"
  allocator :: "(nat \<times> nat) list \<Rightarrow> nat \<Rightarrow> (nat \<times> (nat \<times> nat) list) option"
  font_encode :: "eb_font \<Rightarrow> byte list \<times> byte list"
  row_decode :: "byte list \<Rightarrow> nat \<times> nat \<times> nat \<times> nat"
  row_encode :: "nat list \<Rightarrow> byte list"
  credits_encode :: "eb_credits_font \<Rightarrow> byte list \<times> byte list"
  credits_from_block :: "eb_credits_font \<Rightarrow> byte list \<Rightarrow> nat \<Rightarrow> nat \<Rightarrow> error + eb_credits_font"
  font_from_files :: "eb_font \<Rightarrow> resource \<Rightarrow> resource \<Rightarrow> error + eb_font"
  font_to_files :: "eb_font \<Rightarrow> error + resource \<times> resource"
  credits_from_files :: "eb_credits_font \<Rightarrow> resource \<Rightarrow> error + eb_credits_font"
  credits_to_files :: "eb_credits_font \<Rightarrow> error + resource"
  image_size :: "eb_font \<Rightarrow> nat \<times> nat"
  FONT_IMAGE_PALETTE :: "nat list"

text \<open>
  The ROM: a byte buffer of fixed size, and the free ranges its allocator still holds.
\<close>

record rom =
  rom_data :: "byte list"
  rom_free :: "(nat \<times> nat) list"

section \<open>Constants of the module\<close>

definition FONT_POINTER_TABLE_OFFSET :: nat where
  "FONT_POINTER_TABLE_OFFSET = 0xC3F054"

definition FONT_POINTER_TABLE_ENTRY_SIZE :: nat where
  "FONT_POINTER_TABLE_ENTRY_SIZE = 12"

definition FONT_FILENAMES :: "string list" where
  "FONT_FILENAMES = [''0'', ''1'', ''3'', ''4'', ''2'']"

definition MAX_FONT_INDEX :: nat where
  "MAX_FONT_INDEX = 64"

definition CREDITS_GRAPHICS_ASM_POINTER :: nat where
  "CREDITS_GRAPHICS_ASM_POINTER = 0x4f1a7"

definition CREDITS_PALETTES_ADDRESS :: nat where
  "CREDITS_PALETTES_ADDRESS = 0x21e914"

text \<open>The constructor \<open>EbFont(num_characters, tile_width, tile_height)\<close>: an empty font.\<close>

definition EbFont :: "nat \<Rightarrow> nat \<Rightarrow> nat \<Rightarrow> eb_font" where
  "EbFont n w h =
     \<lparr>num_characters = n,
      tileset = \<lparr>tile_width = w, tile_height = h, tiles = []\<rparr>,
      character_widths = []\<rparr>"

definition EbCreditsFont :: eb_credits_font where
  "EbCreditsFont = \<lparr>credits_tiles = [], credits_palette = []\<rparr>"

text \<open>\<open>FontModule.__init__\<close>, given the table object that \<open>eb_table_from_offset\<close> builds.\<close>

definition FontModule_init :: "pointer_table \<Rightarrow> font_module" where
  "FontModule_init tbl =
     \<lparr>font_pointer_table = tbl,
      fonts = [EbFont 128 16 16, EbFont 128 16 16, EbFont 128 8 16, EbFont 128 8 8,
               EbFont 128 16 16],
      credits_font = EbCreditsFont\<rparr>"

text \<open>Python's \<open>str\<close> on a non-negative integer: its decimal digits.\<close>

definition digit_char :: "nat \<Rightarrow> char" where
  "digit_char d = ''0123456789'' ! d"

function str_nat :: "nat \<Rightarrow> string" where
  "str_nat n = (if n < 10 then [digit_char n] else str_nat (n div 10) @ [digit_char (n mod 10)])"
  by pat_completeness auto
termination
  by (relation "measure (\<lambda>n. n)") auto

declare str_nat.simps [simp del]

section \<open>The project resource store\<close>

text \<open>
  Modelled from the spec: the project resource store of section 6, \<open>open(name, format,
  isText)\<close>, which is not part of \<open>FontModule.py\<close>. A resource is named by its
  logical name and its format; opening an absent resource for reading raises.
\<close>

definition resource_open :: "project \<Rightarrow> string \<Rightarrow> string \<Rightarrow> error + resource" where
  "resource_open p name ext =
     (case p (name, ext) of
        None \<Rightarrow> Inl (ResourceMissingError name ext)
      | Some res \<Rightarrow> Inr res)"

section \<open>Reading from and writing to the project\<close>

text \<open>
  The first loop of \<open>read_from_project\<close>: \<open>for i, font in enumerate(self.fonts)\<close>.
  Font \<open>i\<close> is read from the resources named by \<open>FONT_FILENAMES[i]\<close>; indexing
  \<open>FONT_FILENAMES\<close> out of range raises \<open>IndexError\<close>, and every exception of
  the loop propagates.
\<close>

fun read_default_fonts :: "externals \<Rightarrow> project \<Rightarrow> nat \<Rightarrow> eb_font list \<Rightarrow> error + eb_font list" where
  "read_default_fonts E p i [] = Inr []"
| "read_default_fonts E p i (font # rest) =
     (if i < length FONT_FILENAMES then
        (case resource_open p (''Fonts/'' @ FONT_FILENAMES ! i) ''png'' of
           Inl e \<Rightarrow> Inl e
         | Inr image_file \<Rightarrow>
        (case resource_open p (''Fonts/'' @ FONT_FILENAMES ! i @ ''_widths'') ''yml'' of
           Inl e \<Rightarrow> Inl e
         | Inr widths_file \<Rightarrow>
        (case font_from_files E font image_file widths_file of
           Inl e \<Rightarrow> Inl e
         | Inr font' \<Rightarrow>
        (case read_default_fonts E p (Suc i) rest of
           Inl e \<Rightarrow> Inl e
         | Inr rest' \<Rightarrow> Inr (font' # rest')))))
      else Inl IndexError)"

text \<open>
  The body of the \<open>try\<close> block of the second loop: both resources of index
  \<open>new_font_index\<close> are opened and a fresh 128-character 16x16 font is read from them.
\<close>

definition load_new_font :: "externals \<Rightarrow> project \<Rightarrow> nat \<Rightarrow> error + eb_font" where
  "load_new_font E p new_font_index =
     (let font_filename = str_nat new_font_index in
      case resource_open p (''Fonts/'' @ font_filename) ''png'' of
        Inl e \<Rightarrow> Inl e
      | Inr image_file \<Rightarrow>
     (case resource_open p (''Fonts/'' @ font_filename @ ''_widths'') ''yml'' of
        Inl e \<Rightarrow> Inl e
      | Inr widths_file \<Rightarrow>
          font_from_files E (EbFont 128 16 16) image_file widths_file))"

text \<open>
  The second loop, over the indices still to probe: \<open>except Exception: break\<close> ends the
  loop at the first exception of any kind and keeps the list as it is; otherwise the new
  font is appended and the loop goes on.
\<close>

fun append_new_fonts :: "externals \<Rightarrow> project \<Rightarrow> nat list \<Rightarrow> eb_font list \<Rightarrow> eb_font list" where
  "append_new_fonts E p [] fs = fs"
| "append_new_fonts E p (new_font_index # later) fs =
     (case load_new_font E p new_font_index of
        Inl e \<Rightarrow> fs
      | Inr new_font \<Rightarrow> append_new_fonts E p later (fs @ [new_font]))"

definition read_credits_font_from_project :: "externals \<Rightarrow> font_module \<Rightarrow> project \<Rightarrow> error + font_module" where
  "read_credits_font_from_project E m p =
     (case resource_open p ''Fonts/credits'' ''png'' of
        Inl e \<Rightarrow> Inl e
      | Inr image_file \<Rightarrow>
     (case credits_from_files E (credits_font m) image_file of
        Inl e \<Rightarrow> Inl e
      | Inr c \<Rightarrow> Inr (m\<lparr>credits_font := c\<rparr>)))"

definition read_from_project :: "externals \<Rightarrow> font_module \<Rightarrow> project \<Rightarrow> error + font_module" where
  "read_from_project E m p =
     (case read_default_fonts E p 0 (fonts m) of
        Inl e \<Rightarrow> Inl e
      | Inr fs \<Rightarrow>
          read_credits_font_from_project E
            (m\<lparr>fonts := append_new_fonts E p [5..<MAX_FONT_INDEX] fs\<rparr>) p)"

text \<open>
  The loop of \<open>write_to_project\<close>: font \<open>i\<close> is written to the two resources named by
  \<open>FONT_FILENAMES[i]\<close>.
\<close>

fun write_fonts_to_project :: "externals \<Rightarrow> nat \<Rightarrow> eb_font list \<Rightarrow> project \<Rightarrow> error + project" where
  "write_fonts_to_project E i [] p = Inr p"
| "write_fonts_to_project E i (font # rest) p =
     (if i < length FONT_FILENAMES then
        (case font_to_files E font of
           Inl e \<Rightarrow> Inl e
         | Inr (image_file, widths_file) \<Rightarrow>
             write_fonts_to_project E (Suc i) rest
               (p((''Fonts/'' @ FONT_FILENAMES ! i, ''png'') \<mapsto> image_file,
                  (''Fonts/'' @ FONT_FILENAMES ! i @ ''_widths'', ''yml'') \<mapsto> widths_file)))
      else Inl IndexError)"

definition write_credits_font_to_project :: "externals \<Rightarrow> font_module \<Rightarrow> project \<Rightarrow> error + project" where
  "write_credits_font_to_project E m p =
     (case credits_to_files E (credits_font m) of
        Inl e \<Rightarrow> Inl e
      | Inr image_file \<Rightarrow> Inr (p((''Fonts/credits'', ''png'') \<mapsto> image_file)))"

definition write_to_project :: "externals \<Rightarrow> font_module \<Rightarrow> project \<Rightarrow> error + project" where
  "write_to_project E m p =
     (case write_fonts_to_project E 0 (fonts m) p of
        Inl e \<Rightarrow> Inl e
      | Inr p' \<Rightarrow> write_credits_font_to_project E m p')"

section \<open>Upgrading a project\<close>

text \<open>
  The image and structured-text codecs are libraries outside the module. A resource is
  parsed into an indexed image or a width mapping when it holds one, and parsing anything
  else raises.
\<close>

definition open_indexed_image :: "resource \<Rightarrow> error + image" where
  "open_indexed_image image_file =
     (case image_file of PngFile im \<Rightarrow> Inr im | YmlFile d \<Rightarrow> Inl FormatError | RawFile bs \<Rightarrow> Inl FormatError)"

definition yml_load :: "resource \<Rightarrow> error + (int \<rightharpoonup> int)" where
  "yml_load widths_file =
     (case widths_file of YmlFile d \<Rightarrow> Inr d | PngFile im \<Rightarrow> Inl FormatError | RawFile bs \<Rightarrow> Inl FormatError)"

text \<open>
  The image library's operations as \<open>upgrade_project\<close> uses them:
  \<open>Image.new("P", (w, h), None)\<close>, \<open>putpixel\<close>, the palette's \<open>to_image\<close> and
  \<open>paste(image, (0, 0))\<close>, which copies the pasted image's pixels over the region it
  covers from the origin.
\<close>

definition Image_new :: "nat \<Rightarrow> nat \<Rightarrow> image" where
  "Image_new w h = \<lparr>im_w = w, im_h = h, im_px = (\<lambda>xy. 0), im_palette = []\<rparr>"

definition putpixel :: "image \<Rightarrow> nat \<times> nat \<Rightarrow> nat \<Rightarrow> image" where
  "putpixel im xy v = im\<lparr>im_px := (im_px im)(xy := v)\<rparr>"

definition palette_to_image :: "nat list \<Rightarrow> image \<Rightarrow> image" where
  "palette_to_image pal im = im\<lparr>im_palette := pal\<rparr>"

definition paste :: "image \<Rightarrow> image \<Rightarrow> image" where
  "paste im src =
     im\<lparr>im_px := (\<lambda>(x, y). if x < im_w src \<and> y < im_h src then im_px src (x, y)
                               else im_px im (x, y))\<rparr>"

text \<open>\<open>for x in range(new_image_w): expanded_image.putpixel((x, y), 1)\<close>\<close>

fun fill_row :: "image \<Rightarrow> nat \<Rightarrow> nat list \<Rightarrow> image" where
  "fill_row im y [] = im"
| "fill_row im y (x # xs) = fill_row (putpixel im (x, y) 1) y xs"

text \<open>\<open>for y in range(new_image_h): ...\<close>\<close>

fun fill_image :: "image \<Rightarrow> nat list \<Rightarrow> nat \<Rightarrow> image" where
  "fill_image im [] new_image_w = im"
| "fill_image im (y # ys) new_image_w = fill_image (fill_row im y [0..<new_image_w]) ys new_image_w"

text \<open>
  \<open>for character_id in range(96, 128): if character_id not in widths_dict:
  widths_dict[character_id] = 0\<close>
\<close>

fun add_missing_widths :: "int list \<Rightarrow> (int \<rightharpoonup> int) \<Rightarrow> (int \<rightharpoonup> int)" where
  "add_missing_widths [] widths_dict = widths_dict"
| "add_missing_widths (character_id # cs) widths_dict =
     add_missing_widths cs
       (case widths_dict character_id of
          None \<Rightarrow> widths_dict(character_id \<mapsto> 0)
        | Some w \<Rightarrow> widths_dict)"

text \<open>
  The body of the loop of the branch \<open>old_version == 5\<close>, for font \<open>i\<close>: the image
  resource is read, pasted onto a canvas of the font's image size filled with palette
  index 1, and saved under the same name; then the width mapping is read, completed and
  saved. \<open>resource_open_r\<close> and \<open>resource_open_w\<close> open the same project.
\<close>

definition expand_font :: "externals \<Rightarrow> nat \<Rightarrow> eb_font \<Rightarrow> project \<Rightarrow> error + project" where
  "expand_font E i font p =
     (if i < length FONT_FILENAMES then
        (let image_resource_name = ''Fonts/'' @ FONT_FILENAMES ! i;
             widths_resource_name = ''Fonts/'' @ FONT_FILENAMES ! i @ ''_widths'';
             (new_image_w, new_image_h) = image_size E font
         in
         case resource_open p image_resource_name ''png'' of
           Inl e \<Rightarrow> Inl e
         | Inr image_file \<Rightarrow>
        (case open_indexed_image image_file of
           Inl e \<Rightarrow> Inl e
         | Inr im \<Rightarrow>
        (let expanded_image =
               paste
                 (palette_to_image (FONT_IMAGE_PALETTE E)
                    (fill_image (Image_new new_image_w new_image_h) [0..<new_image_h] new_image_w))
                 im;
             p1 = p((image_resource_name, ''png'') \<mapsto> PngFile expanded_image)
         in
         case resource_open p1 widths_resource_name ''yml'' of
           Inl e \<Rightarrow> Inl e
         | Inr widths_file \<Rightarrow>
        (case yml_load widths_file of
           Inl e \<Rightarrow> Inl e
         | Inr widths_dict \<Rightarrow>
             Inr (p1((widths_resource_name, ''yml'') \<mapsto>
                      YmlFile (add_missing_widths [96..127] widths_dict)))))))
      else Inl IndexError)"

fun expand_fonts :: "externals \<Rightarrow> nat \<Rightarrow> eb_font list \<Rightarrow> project \<Rightarrow> error + project" where
  "expand_fonts E i [] p = Inr p"
| "expand_fonts E i (font # rest) p =
     (case expand_font E i font p of
        Inl e \<Rightarrow> Inl e
      | Inr p' \<Rightarrow> expand_fonts E (Suc i) rest p')"

definition read_credits_font_from_rom :: "externals \<Rightarrow> font_module \<Rightarrow> rom \<Rightarrow> error + font_module" where
  "read_credits_font_from_rom E m r =
     (case credits_from_block E (credits_font m) (rom_data r)
             CREDITS_GRAPHICS_ASM_POINTER CREDITS_PALETTES_ADDRESS of
        Inl e \<Rightarrow> Inl e
      | Inr c \<Rightarrow> Inr (m\<lparr>credits_font := c\<rparr>))"

text \<open>
  \<open>upgrade_project\<close> calls itself with a new \<open>old_version\<close> in every branch but the
  first, and nothing in it bounds the number of calls; the interpreter does: every call
  takes a frame of its stack, and a call for which no frame is left raises
  \<open>RecursionError\<close>. The first argument, \<open>depth\<close>, is the number of nested calls of
  \<open>upgrade_project\<close> that the recursion limit still allows when it is called.
  Only these calls are counted: the calls that a migration step makes return before the
  next call of \<open>upgrade_project\<close>, and a step is taken to fit in the stack whenever
  the call that runs it does. A call gives the module and the project as it leaves them,
  or the exception it raises.
\<close>

fun upgrade_project ::
  "nat \<Rightarrow> externals \<Rightarrow> font_module \<Rightarrow> int \<Rightarrow> int \<Rightarrow> rom \<Rightarrow> project \<Rightarrow> error + font_module \<times> project"
where
  "upgrade_project 0 E m old_version new_version r p = Inl RecursionError"
| "upgrade_project (Suc depth) E m old_version new_version r p =
     (if old_version = new_version then Inr (m, p)
      else if old_version = 5 then
        (case expand_fonts E 0 (fonts m) p of
           Inl e \<Rightarrow> Inl e
         | Inr p' \<Rightarrow> upgrade_project depth E m 6 new_version r p')
      else if old_version \<le> 2 then
        (case read_credits_font_from_rom E m r of
           Inl e \<Rightarrow> Inl e
         | Inr m' \<Rightarrow>
        (case write_credits_font_to_project E m' p of
           Inl e \<Rightarrow> Inl e
         | Inr p' \<Rightarrow> upgrade_project depth E m' 3 new_version r p'))
      else upgrade_project depth E m (old_version + 1) new_version r p)"

section \<open>Writing to the ROM\<close>

text \<open>
  Modelled from the spec: the ROM buffer contract of section 6, which is not part of
  \<open>FontModule.py\<close>: \<open>read(offset, length)\<close>, \<open>write(offset, bytes)\<close> and
  \<open>allocate(size)\<close>. A read or write that does not fit in the buffer raises
  \<open>BufferBoundsError\<close>; an allocation asks the allocator's policy for an offset among
  the free ranges and raises \<open>AllocationError\<close> with the requested size when there is
  none. A write changes the bytes it covers and nothing else; an allocation changes the
  free ranges and no byte.
\<close>

definition rom_read :: "rom \<Rightarrow> nat \<Rightarrow> nat \<Rightarrow> error + byte list" where
  "rom_read r offset n =
     (if offset + n \<le> length (rom_data r) then Inr (take n (drop offset (rom_data r)))
      else Inl BufferBoundsError)"

definition rom_write :: "rom \<Rightarrow> nat \<Rightarrow> byte list \<Rightarrow> error + rom" where
  "rom_write r offset bs =
     (if offset + length bs \<le> length (rom_data r) then
        Inr (r\<lparr>rom_data := take offset (rom_data r) @ bs @ drop (offset + length bs) (rom_data r)\<rparr>)
      else Inl BufferBoundsError)"

definition rom_allocate :: "externals \<Rightarrow> rom \<Rightarrow> nat \<Rightarrow> error + nat \<times> rom" where
  "rom_allocate E r n =
     (case allocator E (rom_free r) n of
        None \<Rightarrow> Inl (AllocationError n)
      | Some (offset, free') \<Rightarrow> Inr (offset, r\<lparr>rom_free := free'\<rparr>))"

text \<open>
  Modelled from the spec: the pointer references of sections 3 and 4.2 (the classes
  \<open>XlPointerReference\<close> and \<open>AsmPointerReference\<close> are not part of
  \<open>FontModule.py\<close>). A reference holds its patch site and, for the direct-address
  kind, a patch offset that defaults to 0. \<open>write\<close> adds the patch offset to the
  address it is given and overwrites the three bytes at the site with the three
  low-order bytes of the sum, lowest first, for both kinds; \<open>read\<close> decodes the three
  bytes at the site.
\<close>

datatype pointer_reference =
    XlPointerReference nat nat
  | AsmPointerReference nat

fun pointer_site :: "pointer_reference \<Rightarrow> nat" where
  "pointer_site (XlPointerReference offset pointer_offset) = offset"
| "pointer_site (AsmPointerReference offset) = offset"

fun patch_offset :: "pointer_reference \<Rightarrow> nat" where
  "patch_offset (XlPointerReference offset pointer_offset) = pointer_offset"
| "patch_offset (AsmPointerReference offset) = 0"

definition address_bytes :: "nat \<Rightarrow> byte list" where
  "address_bytes a = [a mod 256, (a div 256) mod 256, (a div 65536) mod 256]"


fun pointer_write :: "pointer_reference \<Rightarrow> rom \<Rightarrow> nat \<Rightarrow> error + rom" where
  "pointer_write (XlPointerReference offset pointer_offset) r address =
     rom_write r offset (address_bytes (address + pointer_offset))"
| "pointer_write (AsmPointerReference offset) r address =
     rom_write r offset (address_bytes address)"


definition FONT_POINTER_TABLE_REFERENCES :: "pointer_reference list" where
  "FONT_POINTER_TABLE_REFERENCES =
     [XlPointerReference 0x43E7E 0,
      XlPointerReference 0x43E84 2,
      AsmPointerReference 0x43E98,
      XlPointerReference 0x440F8 0,
      XlPointerReference 0x440FE 2,
      XlPointerReference 0x4420E 0,
      XlPointerReference 0x44214 2,
      XlPointerReference 0x44284 0,
      XlPointerReference 0x4428A 2,
      AsmPointerReference 0x4433F,
      AsmPointerReference 0x44512,
      AsmPointerReference 0x44761,
      AsmPointerReference 0x44EF4,
      AsmPointerReference 0x4502D,
      AsmPointerReference 0x450EC,
      AsmPointerReference 0x48292,
      AsmPointerReference 0x499AE,
      AsmPointerReference 0x4E593,
      AsmPointerReference 0x4EDB6,
      XlPointerReference 0x2F0205 0,
      XlPointerReference 0x2F020B 2,
      XlPointerReference 0x44363 4,
      XlPointerReference 0x44369 6,
      XlPointerReference 0x47D42 (FONT_POINTER_TABLE_ENTRY_SIZE * 2 + 4),
      XlPointerReference 0x47D48 (FONT_POINTER_TABLE_ENTRY_SIZE * 2 + 6),
      XlPointerReference 0x44551 (FONT_POINTER_TABLE_ENTRY_SIZE * 3 + 4),
      XlPointerReference 0x44557 (FONT_POINTER_TABLE_ENTRY_SIZE * 3 + 6)]"

text \<open>
  Modelled from the spec: the pointer table of sections 3 and 4.4 (the table class is not
  part of \<open>FontModule.py\<close>). \<open>from_block\<close> reads \<open>num_rows\<close> rows of
  \<open>FONT_POINTER_TABLE_ENTRY_SIZE\<close> bytes each, every row decoded into its four
  fields; \<open>to_block\<close> writes \<open>num_rows\<close> encoded rows; \<open>table[i][k] = v\<close>
  assigns field \<open>k\<close> of row \<open>i\<close> and raises \<open>IndexError\<close> out of range.
\<close>

fun read_rows :: "externals \<Rightarrow> rom \<Rightarrow> nat \<Rightarrow> nat list \<Rightarrow> error + nat list list" where
  "read_rows E r offset [] = Inr []"
| "read_rows E r offset (i # later) =
     (case rom_read r (offset + i * FONT_POINTER_TABLE_ENTRY_SIZE) FONT_POINTER_TABLE_ENTRY_SIZE of
        Inl e \<Rightarrow> Inl e
      | Inr bs \<Rightarrow>
     (case read_rows E r offset later of
        Inl e \<Rightarrow> Inl e
      | Inr rest \<Rightarrow> Inr ((case row_decode E bs of (a, b, c, d) \<Rightarrow> [a, b, c, d]) # rest)))"

definition table_from_block :: "externals \<Rightarrow> pointer_table \<Rightarrow> rom \<Rightarrow> nat \<Rightarrow> error + pointer_table" where
  "table_from_block E tbl r offset =
     (case read_rows E r offset [0..<num_rows tbl] of
        Inl e \<Rightarrow> Inl e
      | Inr rs \<Rightarrow> Inr (tbl\<lparr>rows := rs\<rparr>))"

fun write_rows :: "externals \<Rightarrow> nat list list \<Rightarrow> nat \<Rightarrow> nat list \<Rightarrow> rom \<Rightarrow> error + rom" where
  "write_rows E rs offset [] r = Inr r"
| "write_rows E rs offset (i # later) r =
     (if i < length rs then
        (case rom_write r (offset + i * FONT_POINTER_TABLE_ENTRY_SIZE) (row_encode E (rs ! i)) of
           Inl e \<Rightarrow> Inl e
         | Inr r' \<Rightarrow> write_rows E rs offset later r')
      else Inl IndexError)"

definition table_to_block :: "externals \<Rightarrow> pointer_table \<Rightarrow> rom \<Rightarrow> nat \<Rightarrow> error + rom" where
  "table_to_block E tbl r offset = write_rows E (rows tbl) offset [0..<num_rows tbl] r"

definition table_set :: "pointer_table \<Rightarrow> nat \<Rightarrow> nat \<Rightarrow> nat \<Rightarrow> error + pointer_table" where
  "table_set tbl i k v =
     (if i < length (rows tbl) \<and> k < length (rows tbl ! i) then
        Inr (tbl\<lparr>rows := (rows tbl)[i := (rows tbl ! i)[k := v]]\<rparr>)
      else Inl IndexError)"

text \<open>
  Modelled from the spec: \<open>EbFont.to_block\<close> (sections 4.5 and 5; the font class is
  not part of \<open>FontModule.py\<close>). The font is encoded; space for the tileset is
  allocated and its bytes are written, then space for the widths is allocated and their
  bytes are written; the result is the pair of the two offsets.
\<close>

definition font_to_block :: "externals \<Rightarrow> eb_font \<Rightarrow> rom \<Rightarrow> error + (nat \<times> nat) \<times> rom" where
  "font_to_block E font r =
     (case font_encode E font of (tileset_bytes, widths_bytes) \<Rightarrow>
     (case rom_allocate E r (length tileset_bytes) of
        Inl e \<Rightarrow> Inl e
      | Inr (graphics_offset, r1) \<Rightarrow>
     (case rom_write r1 graphics_offset tileset_bytes of
        Inl e \<Rightarrow> Inl e
      | Inr r2 \<Rightarrow>
     (case rom_allocate E r2 (length widths_bytes) of
        Inl e \<Rightarrow> Inl e
      | Inr (widths_offset, r3) \<Rightarrow>
     (case rom_write r3 widths_offset widths_bytes of
        Inl e \<Rightarrow> Inl e
      | Inr r4 \<Rightarrow> Inr ((graphics_offset, widths_offset), r4))))))"

text \<open>
  Modelled from the spec: \<open>EbCreditsFont.to_block\<close> (section 3: a fixed-layout font
  with its own graphics pointer and a small fixed palette; the class is not part of
  \<open>FontModule.py\<close>). The graphics are encoded, allocated and written, the graphics
  pointer at \<open>tileset_asm_pointer_offset\<close> is patched as an instruction operand, and
  the palette is written at \<open>palette_offset\<close>.
\<close>

definition credits_font_to_block :: "externals \<Rightarrow> eb_credits_font \<Rightarrow> rom \<Rightarrow> nat \<Rightarrow> nat \<Rightarrow> error + rom" where
  "credits_font_to_block E c r tileset_asm_pointer_offset palette_offset =
     (case credits_encode E c of (graphics_bytes, palette_bytes) \<Rightarrow>
     (case rom_allocate E r (length graphics_bytes) of
        Inl e \<Rightarrow> Inl e
      | Inr (graphics_offset, r1) \<Rightarrow>
     (case rom_write r1 graphics_offset graphics_bytes of
        Inl e \<Rightarrow> Inl e
      | Inr r2 \<Rightarrow>
     (case to_snes_address E graphics_offset of
        Inl e \<Rightarrow> Inl e
      | Inr address \<Rightarrow>
     (case pointer_write (AsmPointerReference tileset_asm_pointer_offset) r2 address of
        Inl e \<Rightarrow> Inl e
      | Inr r3 \<Rightarrow> rom_write r3 palette_offset palette_bytes)))))"

definition write_credits_font_to_rom :: "externals \<Rightarrow> font_module \<Rightarrow> rom \<Rightarrow> error + rom" where
  "write_credits_font_to_rom E m r =
     credits_font_to_block E (credits_font m) r
       CREDITS_GRAPHICS_ASM_POINTER CREDITS_PALETTES_ADDRESS"

text \<open>
  \<open>while len(self.font_pointer_table.values) < len(self.fonts):
  self.font_pointer_table.values.append([0, 0, 0, 0])\<close>
\<close>

function append_rows :: "nat list list \<Rightarrow> nat \<Rightarrow> nat list list" where
  "append_rows vs n = (if length vs < n then append_rows (vs @ [[0, 0, 0, 0]]) n else vs)"
  by pat_completeness auto
termination
  by (relation "measure (\<lambda>(vs, n). n - length vs)") auto

declare append_rows.simps [simp del]

text \<open>
  The loop \<open>for i, font in enumerate(self.fonts)\<close> of \<open>write_to_rom\<close>: the font is
  written to the ROM and the four fields of row \<open>i\<close> are assigned. The right-hand side
  of each assignment is evaluated before the row is indexed.
\<close>

fun write_fonts_to_rom :: "externals \<Rightarrow> nat \<Rightarrow> eb_font list \<Rightarrow> pointer_table \<Rightarrow> rom \<Rightarrow> error + pointer_table \<times> rom" where
  "write_fonts_to_rom E i [] tbl r = Inr (tbl, r)"
| "write_fonts_to_rom E i (font # rest) tbl r =
     (case font_to_block E font r of
        Inl e \<Rightarrow> Inl e
      | Inr ((graphics_offset, widths_offset), r') \<Rightarrow>
     (case to_snes_address E widths_offset of
        Inl e \<Rightarrow> Inl e
      | Inr widths_address \<Rightarrow>
     (case table_set tbl i 0 widths_address of
        Inl e \<Rightarrow> Inl e
      | Inr tbl0 \<Rightarrow>
     (case to_snes_address E graphics_offset of
        Inl e \<Rightarrow> Inl e
      | Inr graphics_address \<Rightarrow>
     (case table_set tbl0 i 1 graphics_address of
        Inl e \<Rightarrow> Inl e
      | Inr tbl1 \<Rightarrow>
     (case table_set tbl1 i 2 ((tile_height (tileset font) * tile_width (tileset font)) div 8) of
        Inl e \<Rightarrow> Inl e
      | Inr tbl2 \<Rightarrow>
     (case table_set tbl2 i 3 (tile_height (tileset font)) of
        Inl e \<Rightarrow> Inl e
      | Inr tbl3 \<Rightarrow> write_fonts_to_rom E (Suc i) rest tbl3 r')))))))"

text \<open>
  \<open>for pointer in self.FONT_POINTER_TABLE_REFERENCES: pointer.write(rom,
  to_snes_address(new_table_offset))\<close>
\<close>

fun write_pointers :: "externals \<Rightarrow> pointer_reference list \<Rightarrow> rom \<Rightarrow> nat \<Rightarrow> error + rom" where
  "write_pointers E [] r new_table_offset = Inr r"
| "write_pointers E (pointer # later) r new_table_offset =
     (case to_snes_address E new_table_offset of
        Inl e \<Rightarrow> Inl e
      | Inr address \<Rightarrow>
     (case pointer_write pointer r address of
        Inl e \<Rightarrow> Inl e
      | Inr r' \<Rightarrow> write_pointers E later r' new_table_offset))"

text \<open>
  \<open>write_to_rom\<close>: the module as it is after the pass (its table is the one written)
  and the ROM, or the exception raised.
\<close>

definition write_to_rom :: "externals \<Rightarrow> font_module \<Rightarrow> rom \<Rightarrow> error + font_module \<times> rom" where
  "write_to_rom E m r =
     (case from_snes_address E FONT_POINTER_TABLE_OFFSET of
        Inl e \<Rightarrow> Inl e
      | Inr table_offset \<Rightarrow>
     (case table_from_block E (font_pointer_table m) r table_offset of
        Inl e \<Rightarrow> Inl e
      | Inr loaded \<Rightarrow>
     (case write_fonts_to_rom E 0 (fonts m)
             (loaded\<lparr>num_rows := length (fonts m),
                     rows := append_rows (rows loaded) (length (fonts m))\<rparr>) r of
        Inl e \<Rightarrow> Inl e
      | Inr (tbl, r1) \<Rightarrow>
     (case rom_allocate E r1 (length (fonts m) * FONT_POINTER_TABLE_ENTRY_SIZE) of
        Inl e \<Rightarrow> Inl e
      | Inr (new_table_offset, r2) \<Rightarrow>
     (case write_pointers E FONT_POINTER_TABLE_REFERENCES r2 new_table_offset of
        Inl e \<Rightarrow> Inl e
      | Inr r3 \<Rightarrow>
     (case table_to_block E tbl r3 new_table_offset of
        Inl e \<Rightarrow> Inl e
      | Inr r4 \<Rightarrow>
     (case write_credits_font_to_rom E (m\<lparr>font_pointer_table := tbl\<rparr>) r4 of
        Inl e \<Rightarrow> Inl e
      | Inr r5 \<Rightarrow> Inr (m\<lparr>font_pointer_table := tbl\<rparr>, r5))))))))"

text \<open>
  The offsets that \<open>font.to_block\<close> returns for each font of a list, when the fonts are
  written one after the other from ROM state \<open>r\<close>, as the loop of \<open>write_to_rom\<close>
  does.
\<close>

fun to_block_offsets :: "externals \<Rightarrow> eb_font list \<Rightarrow> rom \<Rightarrow> (nat \<times> nat) list" where
  "to_block_offsets E [] r = []"
| "to_block_offsets E (font # rest) r =
     (case font_to_block E font r of
        Inl e \<Rightarrow> []
      | Inr (offsets, r') \<Rightarrow> offsets # to_block_offsets E rest r')"

section \<open>Relations used in the proofs\<close>


text \<open>
  Two ROM states are aligned when they have the same free ranges and buffers of the same
  size. Two runs of an operation, from \<open>r1\<close> to \<open>r1'\<close> and from \<open>r2\<close> to
  \<open>r2'\<close>, are in lockstep when they end aligned, keep the size of the buffer, and at
  every offset either end with the same byte or both leave the byte as it was.
\<close>

definition aligned :: "rom \<Rightarrow> rom \<Rightarrow> bool" where
  "aligned r1 r2 \<longleftrightarrow>
     rom_free r2 = rom_free r1 \<and> length (rom_data r2) = length (rom_data r1)"

definition lockstep :: "rom \<Rightarrow> rom \<Rightarrow> rom \<Rightarrow> rom \<Rightarrow> bool" where
  "lockstep r1 r1' r2 r2' \<longleftrightarrow>
     aligned r1' r2' \<and> length (rom_data r1') = length (rom_data r1) \<and>
     (\<forall>a<length (rom_data r1).
        rom_data r1' ! a = rom_data r2' ! a \<or>
        (rom_data r1' ! a = rom_data r1 ! a \<and> rom_data r2' ! a = rom_data r2 ! a))"





section \<open>A small instance\<close>

text \<open>
  An instance of the collaborators and a few projects, on which the theorems below are
  evaluated: a first-fit allocator over inclusive free ranges, codecs that keep one pixel
  of a font, and projects with and without a gap in the sequence of extra fonts.
\<close>

fun first_fit :: "(nat \<times> nat) list \<Rightarrow> nat \<Rightarrow> (nat \<times> (nat \<times> nat) list) option" where
  "first_fit [] n = None"
| "first_fit ((lo, hi) # rest) n =
     (if lo + n \<le> hi + 1 then Some (lo, (lo + n, hi) # rest)
      else (case first_fit rest n of
              None \<Rightarrow> None
            | Some (offset, rest') \<Rightarrow> Some (offset, (lo, hi) # rest')))"

definition example_glyph :: "nat \<Rightarrow> image" where
  "example_glyph v = \<lparr>im_w = 1, im_h = 1, im_px = (\<lambda>xy. v), im_palette = []\<rparr>"

definition example_externals :: externals where
  "example_externals =
     \<lparr>to_snes_address = (\<lambda>a. Inr (a + 0xC00000)),
      from_snes_address = (\<lambda>a. if 0xC00000 \<le> a then Inr (a - 0xC00000) else Inl OutOfRangeError),
      allocator = first_fit,
      font_encode = (\<lambda>font. (concat (tiles (tileset font)), character_widths font)),
      row_decode = (\<lambda>bs. (bs ! 0, bs ! 4, bs ! 8, bs ! 10)),
      row_encode = (\<lambda>row. [row ! 0 mod 256, 0, 0, 0, row ! 1 mod 256, 0, 0, 0,
                              row ! 2 mod 256, 0, row ! 3 mod 256, 0]),
      credits_encode = (\<lambda>c. (concat (credits_tiles c), credits_palette c)),
      credits_from_block = (\<lambda>c bs graphics_pointer palette_offset. Inr c),
      font_from_files = (\<lambda>font image_file widths_file.
         case image_file of
           PngFile im \<Rightarrow>
             (case widths_file of
                YmlFile d \<Rightarrow> Inr (font\<lparr>tileset := (tileset font)\<lparr>tiles := [[im_px im (0, 0)]]\<rparr>\<rparr>)
              | PngFile im' \<Rightarrow> Inl FormatError
              | RawFile bs \<Rightarrow> Inl FormatError)
         | YmlFile d \<Rightarrow> Inl FormatError
         | RawFile bs \<Rightarrow> Inl FormatError),
      font_to_files = (\<lambda>font.
         Inr (PngFile (example_glyph (case tiles (tileset font) of (v # vs) # ts \<Rightarrow> v | _ \<Rightarrow> 0)),
              YmlFile Map.empty)),
      credits_from_files = (\<lambda>c image_file.
         case image_file of
           PngFile im \<Rightarrow> Inr c
         | YmlFile d \<Rightarrow> Inl FormatError
         | RawFile bs \<Rightarrow> Inl FormatError),
      credits_to_files = (\<lambda>c. Inr (PngFile (example_glyph 1))),
      image_size = (\<lambda>font. (tile_width (tileset font) * 16,
                              tile_height (tileset font) * (num_characters font div 16))),
      FONT_IMAGE_PALETTE = [0, 1]\<rparr>"

definition font_resources :: "string \<Rightarrow> nat \<Rightarrow> ((string \<times> string) \<times> resource) list" where
  "font_resources name v =
     [((''Fonts/'' @ name, ''png''), PngFile (example_glyph v)),
      ((''Fonts/'' @ name @ ''_widths'', ''yml''), YmlFile Map.empty)]"

definition gapped_project :: project where
  "gapped_project =
     map_of (font_resources ''0'' 10 @ font_resources ''1'' 11 @ font_resources ''2'' 12 @
             font_resources ''3'' 13 @ font_resources ''4'' 14 @ font_resources ''5'' 15 @
             font_resources ''7'' 17 @
             [((''Fonts/credits'', ''png''), PngFile (example_glyph 1))])"

definition corrupt_project :: project where
  "corrupt_project = gapped_project((''Fonts/6'', ''png'') \<mapsto> RawFile [1, 2, 3],
                                    (''Fonts/6_widths'', ''yml'') \<mapsto> YmlFile Map.empty)"

definition extended_project :: project where
  "extended_project = gapped_project((''Fonts/8'', ''png'') \<mapsto> PngFile (example_glyph 18),
                                     (''Fonts/8_widths'', ''yml'') \<mapsto> YmlFile Map.empty)"

definition full_project :: project where
  "full_project =
     (\<lambda>(name, ext). if ext = ''png'' then Some (PngFile (example_glyph 7))
                     else Some (YmlFile Map.empty))"

definition example_font :: "nat \<Rightarrow> nat \<Rightarrow> nat \<Rightarrow> eb_font" where
  "example_font w h v =
     \<lparr>num_characters = 128,
      tileset = \<lparr>tile_width = w, tile_height = h, tiles = [[v]]\<rparr>,
      character_widths = []\<rparr>"

definition example_table :: pointer_table where
  "example_table = \<lparr>num_rows = 5, rows = []\<rparr>"

definition example_module :: font_module where
  "example_module =
     \<lparr>font_pointer_table = example_table,
      fonts = [example_font 16 16 10, example_font 16 16 11, example_font 8 16 12,
               example_font 8 8 13, example_font 16 16 14],
      credits_font = EbCreditsFont\<rparr>"

definition example_rom :: rom where
  "example_rom = \<lparr>rom_data = replicate 0x300100 0, rom_free = [(0x300000, 0x3000FF)]\<rparr>"

definition v5_image :: "nat \<Rightarrow> nat \<Rightarrow> image" where
  "v5_image w h = \<lparr>im_w = 16 * w, im_h = 6 * h, im_px = (\<lambda>xy. 2), im_palette = [0, 1]\<rparr>"

definition v5_resources :: "string \<Rightarrow> nat \<Rightarrow> nat \<Rightarrow> ((string \<times> string) \<times> resource) list" where
  "v5_resources name w h =
     [((''Fonts/'' @ name, ''png''), PngFile (v5_image w h)),
      ((''Fonts/'' @ name @ ''_widths'', ''yml''), YmlFile [0 \<mapsto> 5, 10 \<mapsto> 3])]"

definition v5_project :: project where
  "v5_project =
     map_of (v5_resources ''0'' 16 16 @ v5_resources ''1'' 16 16 @ v5_resources ''3'' 8 16 @
             v5_resources ''4'' 8 8 @ v5_resources ''2'' 16 16)"

definition grown_module :: font_module where
  "grown_module =
     \<lparr>font_pointer_table = \<lparr>num_rows = 1, rows = []\<rparr>,
      fonts = [example_font 16 16 10, example_font 8 8 11],
      credits_font = \<lparr>credits_tiles = [[7]], credits_palette = [1, 2]\<rparr>\<rparr>"

section \<open>Resource names\<close>

lemma digit_char_inj: "a < 10 \<Longrightarrow> b < 10 \<Longrightarrow> digit_char a = digit_char b \<Longrightarrow> a = b"
proof -
  assume a: "a < 10" and b: "b < 10" and eq: "digit_char a = digit_char b"
  have d: "distinct ''0123456789''" by simp
  from a b have "a < length ''0123456789''" "b < length ''0123456789''" by simp_all
  with d eq show "a = b" unfolding digit_char_def by (simp only: nth_eq_iff_index_eq)
qed

lemma digit_char_in: "a < 10 \<Longrightarrow> digit_char a \<in> set ''0123456789''"
  unfolding digit_char_def by (rule nth_mem) simp

lemma str_nat_digits: "set (str_nat n) \<subseteq> set ''0123456789''"
proof (induction n rule: str_nat.induct)
  case (1 n)
  show ?case
  proof (cases "n < 10")
    case True
    then show ?thesis using digit_char_in [of n] by (subst str_nat.simps) simp
  next
    case False
    have "n mod 10 < 10" by simp
    from digit_char_in [OF this] 1 [OF False] False show ?thesis
      by (subst str_nat.simps) simp
  qed
qed

lemma str_nat_not_Nil: "str_nat n \<noteq> []"
  by (subst str_nat.simps) simp

lemma str_nat_inj: "str_nat a = str_nat b \<Longrightarrow> a = b"
proof (induction a arbitrary: b rule: str_nat.induct)
  case (1 a)
  show ?case
  proof (cases "a < 10")
    case a: True
    show ?thesis
    proof (cases "b < 10")
      case True
      with a "1.prems" show ?thesis
        by (simp add: str_nat.simps [of a] str_nat.simps [of b] digit_char_inj)
    next
      case False
      with a "1.prems" str_nat_not_Nil [of "b div 10"] show ?thesis
        by (simp add: str_nat.simps [of a] str_nat.simps [of b] Cons_eq_append_conv)
    qed
  next
    case a: False
    show ?thesis
    proof (cases "b < 10")
      case True
      with a "1.prems" str_nat_not_Nil [of "a div 10"] show ?thesis
        by (simp add: str_nat.simps [of a] str_nat.simps [of b] append_eq_Cons_conv)
    next
      case False
      with a "1.prems" have eq: "str_nat (a div 10) = str_nat (b div 10)"
        and d: "digit_char (a mod 10) = digit_char (b mod 10)"
        by (simp_all add: str_nat.simps [of a] str_nat.simps [of b])
      from "1.IH" [OF a eq] have "a div 10 = b div 10" .
      moreover from d have "a mod 10 = b mod 10" by (intro digit_char_inj) simp_all
      ultimately show ?thesis by (metis div_mult_mod_eq)
    qed
  qed
qed

lemma FONT_FILENAMES_str: "FONT_FILENAMES = map str_nat [0, 1, 3, 4, 2]"
  by (simp add: FONT_FILENAMES_def str_nat.simps digit_char_def)

lemma FONT_FILENAMES_distinct: "distinct FONT_FILENAMES"
  by (simp add: FONT_FILENAMES_def)

lemma FONT_FILENAMES_nth_neq:
  "i < length FONT_FILENAMES \<Longrightarrow> j < length FONT_FILENAMES \<Longrightarrow> i \<noteq> j \<Longrightarrow>
   FONT_FILENAMES ! i \<noteq> FONT_FILENAMES ! j"
  using FONT_FILENAMES_distinct by (simp add: nth_eq_iff_index_eq)

lemma FONT_FILENAMES_not_new:
  assumes "i < length FONT_FILENAMES" "5 \<le> k"
  shows "FONT_FILENAMES ! i \<noteq> str_nat k"
proof
  assume eq: "FONT_FILENAMES ! i = str_nat k"
  from assms(1) have "FONT_FILENAMES ! i \<in> set FONT_FILENAMES" by (rule nth_mem)
  moreover have "set FONT_FILENAMES \<subseteq> str_nat ` {n. n < 5}"
    unfolding FONT_FILENAMES_str by (simp del: One_nat_def)
  ultimately obtain n where n: "n < 5" "FONT_FILENAMES ! i = str_nat n"
    by blast
  with eq have "str_nat n = str_nat k" by simp
  then have "n = k" by (rule str_nat_inj)
  with n(1) assms(2) show False by simp
qed

lemma credits_not_font_name: "''credits'' \<noteq> str_nat k"
proof
  assume "''credits'' = str_nat k"
  then have "CHR ''c'' \<in> set (str_nat k)" by (metis list.set_intros(1))
  with str_nat_digits [of k] show False by auto
qed

lemma credits_not_default_name: "i < length FONT_FILENAMES \<Longrightarrow> ''credits'' \<noteq> FONT_FILENAMES ! i"
proof
  assume i: "i < length FONT_FILENAMES" and eq: "''credits'' = FONT_FILENAMES ! i"
  from i have "FONT_FILENAMES ! i \<in> set FONT_FILENAMES" by (rule nth_mem)
  with eq have "''credits'' \<in> set FONT_FILENAMES" by simp
  then show False by (simp add: FONT_FILENAMES_def)
qed


section \<open>Properties of reading from the project\<close>

lemmas example_simps =
  example_externals_def font_resources_def gapped_project_def corrupt_project_def extended_project_def
  full_project_def example_font_def example_glyph_def example_table_def
  FontModule_init_def EbFont_def EbCreditsFont_def FONT_FILENAMES_def
  resource_open_def load_new_font_def Let_def digit_char_def

lemma append_new_fonts_stop:
  "\<forall>j\<in>set xs. load_new_font E p j = Inr (f j) \<Longrightarrow> load_new_font E p k = Inl e \<Longrightarrow>
   append_new_fonts E p (xs @ k # ys) fs = fs @ map f xs"
  by (induction xs arbitrary: fs) auto

lemma append_new_fonts_all:
  "\<forall>j\<in>set xs. load_new_font E p j = Inr (f j) \<Longrightarrow>
   append_new_fonts E p xs fs = fs @ map f xs"
  by (induction xs arbitrary: fs) auto

lemma append_new_fonts_length:
  "length (append_new_fonts E p xs fs) \<le> length fs + length xs"
proof (induction xs arbitrary: fs)
  case Nil
  then show ?case by simp
next
  case (Cons x xs)
  show ?case
  proof (cases "load_new_font E p x")
    case (Inl e)
    then show ?thesis by simp
  next
    case (Inr f)
    with Cons [of "fs @ [f]"] show ?thesis by simp
  qed
qed

lemma read_default_fonts_length:
  "read_default_fonts E p i fs = Inr fs' \<Longrightarrow> length fs' = length fs \<and> (fs = [] \<or> i + length fs \<le> length FONT_FILENAMES)"
proof (induction fs arbitrary: i fs')
  case Nil
  then show ?case by simp
next
  case (Cons f fs)
  from Cons.prems show ?case
    by (auto split: sum.splits if_splits dest!: Cons.IH)
qed

lemma upt_split_at: "a \<le> k \<Longrightarrow> k < b \<Longrightarrow> [a..<b] = [a..<k] @ k # [Suc k..<b]"
  by (metis le_add_diff_inverse less_imp_le_nat upt_add_eq_append upt_conv_Cons)

lemma resource_open_cong:
  "p' (name, ext) = p (name, ext) \<Longrightarrow> resource_open p' name ext = resource_open p name ext"
  by (simp add: resource_open_def)

lemma load_new_font_cong:
  assumes "p' (''Fonts/'' @ str_nat j, ''png'') = p (''Fonts/'' @ str_nat j, ''png'')"
    and "p' (''Fonts/'' @ str_nat j @ ''_widths'', ''yml'') = p (''Fonts/'' @ str_nat j @ ''_widths'', ''yml'')"
  shows "load_new_font E p' j = load_new_font E p j"
proof -
  have "resource_open p' (''Fonts/'' @ str_nat j) ''png'' =
        resource_open p (''Fonts/'' @ str_nat j) ''png''"
    using assms(1) by (rule resource_open_cong)
  moreover have "resource_open p' (''Fonts/'' @ str_nat j @ ''_widths'') ''yml'' =
        resource_open p (''Fonts/'' @ str_nat j @ ''_widths'') ''yml''"
    using assms(2) by (rule resource_open_cong)
  ultimately show ?thesis
    by (simp add: load_new_font_def Let_def cong: sum.case_cong)
qed

lemma load_new_font_missing:
  "p (''Fonts/'' @ str_nat k, ''png'') = None \<Longrightarrow>
   load_new_font E p k = Inl (ResourceMissingError (''Fonts/'' @ str_nat k) ''png'')"
  by (simp add: load_new_font_def Let_def resource_open_def)

lemma append_new_fonts_upto:
  assumes k: "5 \<le> k" "k < MAX_FONT_INDEX"
    and before: "\<forall>j\<in>{5..<k}. load_new_font E p j = Inr (f j)"
    and failure: "load_new_font E p k = Inl e"
  shows "append_new_fonts E p [5..<MAX_FONT_INDEX] fs = fs @ map f [5..<k]"
proof -
  have "[5..<MAX_FONT_INDEX] = [5..<k] @ k # [Suc k..<MAX_FONT_INDEX]"
    using k by (rule upt_split_at)
  moreover from before have "\<forall>j\<in>set [5..<k]. load_new_font E p j = Inr (f j)"
    by simp
  ultimately show ?thesis
    using failure by (simp only: append_new_fonts_stop)
qed

text \<open>
  Claim C4. Extra fonts are discovered by probing the resource names of the indices 5, 6,
  ... in order. When the indices 5 to \<open>k - 1\<close> load and the image resource of index
  \<open>k\<close> is missing, \<open>read_from_project\<close> raises nothing for it: the fonts list is
  the base fonts followed by exactly the fonts of the indices 5 to \<open>k - 1\<close>. Whatever a
  project holds for the indices after \<open>k\<close> has no effect on the discovered list: every
  project that agrees on the indices 5 to \<open>k\<close> gives the same list.
\<close>

theorem discovery_stops_at_first_missing_resource:
  assumes k: "5 \<le> k" "k < MAX_FONT_INDEX"
    and before: "\<forall>j\<in>{5..<k}. load_new_font E p j = Inr (f j)"
    and missing: "p (''Fonts/'' @ str_nat k, ''png'') = None"
    and base: "read_default_fonts E p 0 (fonts m) = Inr fs"
  shows "read_from_project E m p =
           read_credits_font_from_project E (m\<lparr>fonts := fs @ map f [5..<k]\<rparr>) p \<and>
         (\<forall>p'. (\<forall>j\<in>{5..k}.
                  p' (''Fonts/'' @ str_nat j, ''png'') = p (''Fonts/'' @ str_nat j, ''png'') \<and>
                  p' (''Fonts/'' @ str_nat j @ ''_widths'', ''yml'') =
                    p (''Fonts/'' @ str_nat j @ ''_widths'', ''yml'')) \<longrightarrow>
               append_new_fonts E p' [5..<MAX_FONT_INDEX] fs = fs @ map f [5..<k])"
proof (intro conjI allI impI)
  from missing have failure: "load_new_font E p k = Inl (ResourceMissingError (''Fonts/'' @ str_nat k) ''png'')"
    by (rule load_new_font_missing)
  have "append_new_fonts E p [5..<MAX_FONT_INDEX] fs = fs @ map f [5..<k]"
    using k before failure by (rule append_new_fonts_upto)
  with base show "read_from_project E m p =
      read_credits_font_from_project E (m\<lparr>fonts := fs @ map f [5..<k]\<rparr>) p"
    by (simp add: read_from_project_def)
next
  fix p'
  assume agree: "\<forall>j\<in>{5..k}.
      p' (''Fonts/'' @ str_nat j, ''png'') = p (''Fonts/'' @ str_nat j, ''png'') \<and>
      p' (''Fonts/'' @ str_nat j @ ''_widths'', ''yml'') =
        p (''Fonts/'' @ str_nat j @ ''_widths'', ''yml'')"
  have same: "load_new_font E p' j = load_new_font E p j" if "j \<in> {5..k}" for j
    using agree that by (intro load_new_font_cong) simp_all
  from k have "k \<in> {5..k}" by simp
  with agree missing have "p' (''Fonts/'' @ str_nat k, ''png'') = None" by simp
  then have failure: "load_new_font E p' k = Inl (ResourceMissingError (''Fonts/'' @ str_nat k) ''png'')"
    by (rule load_new_font_missing)
  have before': "\<forall>j\<in>{5..<k}. load_new_font E p' j = Inr (f j)"
    using before same by simp
  show "append_new_fonts E p' [5..<MAX_FONT_INDEX] fs = fs @ map f [5..<k]"
    using k before' failure by (rule append_new_fonts_upto)
qed

lemma read_default_fonts_cong:
  assumes "\<And>i. i < length FONT_FILENAMES \<Longrightarrow>
      p' (''Fonts/'' @ FONT_FILENAMES ! i, ''png'') = p (''Fonts/'' @ FONT_FILENAMES ! i, ''png'') \<and>
      p' (''Fonts/'' @ FONT_FILENAMES ! i @ ''_widths'', ''yml'') =
        p (''Fonts/'' @ FONT_FILENAMES ! i @ ''_widths'', ''yml'')"
  shows "read_default_fonts E p' i fs = read_default_fonts E p i fs"
proof (induction fs arbitrary: i)
  case Nil
  show ?case by simp
next
  case (Cons font rest)
  show ?case
  proof (cases "i < length FONT_FILENAMES")
    case True
    from assms [OF True]
    have a: "resource_open p' (''Fonts/'' @ FONT_FILENAMES ! i) ''png'' =
          resource_open p (''Fonts/'' @ FONT_FILENAMES ! i) ''png''"
      and b: "resource_open p' (''Fonts/'' @ FONT_FILENAMES ! i @ ''_widths'') ''yml'' =
          resource_open p (''Fonts/'' @ FONT_FILENAMES ! i @ ''_widths'') ''yml''"
      by (simp_all add: resource_open_def)
    show ?thesis
      unfolding read_default_fonts.simps a b Cons.IH [of "Suc i"] ..
  next
    case False
    then show ?thesis by simp
  qed
qed

text \<open>
  Claim C8. When the indices 5 to \<open>k - 1\<close> load and loading index \<open>k\<close> fails with
  any exception \<open>e\<close> (a resource that cannot be opened, or a present resource that the
  font cannot be read from), the discovery loop returns the fonts found before it and
  raises nothing, and \<open>read_from_project\<close> gives the same result as on the project in
  which the image resource of index \<open>k\<close> is absent.
\<close>

theorem discovery_ends_on_any_failure:
  assumes k: "5 \<le> k" "k < MAX_FONT_INDEX"
    and before: "\<forall>j\<in>{5..<k}. load_new_font E p j = Inr (f j)"
    and failure: "load_new_font E p k = Inl e"
  shows "append_new_fonts E p [5..<MAX_FONT_INDEX] fs = fs @ map f [5..<k] \<and>
         read_from_project E m p =
           read_from_project E m (p((''Fonts/'' @ str_nat k, ''png'') := None))"
proof
  show kept: "append_new_fonts E p [5..<MAX_FONT_INDEX] fs = fs @ map f [5..<k]"
    using k before failure by (rule append_new_fonts_upto)
  define p' where "p' = p((''Fonts/'' @ str_nat k, ''png'') := None)"
  have base: "read_default_fonts E p' 0 (fonts m) = read_default_fonts E p 0 (fonts m)"
  proof (rule read_default_fonts_cong)
    fix i assume "i < length FONT_FILENAMES"
    from FONT_FILENAMES_not_new [OF this k(1)]
    show "p' (''Fonts/'' @ FONT_FILENAMES ! i, ''png'') = p (''Fonts/'' @ FONT_FILENAMES ! i, ''png'') \<and>
      p' (''Fonts/'' @ FONT_FILENAMES ! i @ ''_widths'', ''yml'') =
        p (''Fonts/'' @ FONT_FILENAMES ! i @ ''_widths'', ''yml'')"
      by (simp add: p'_def)
  qed
  have before': "\<forall>j\<in>{5..<k}. load_new_font E p' j = Inr (f j)"
  proof
    fix j assume j: "j \<in> {5..<k}"
    then have "str_nat j \<noteq> str_nat k" using str_nat_inj [of j k] by auto
    then have "load_new_font E p' j = load_new_font E p j"
      by (intro load_new_font_cong) (simp_all add: p'_def)
    with before j show "load_new_font E p' j = Inr (f j)" by simp
  qed
  have "p' (''Fonts/'' @ str_nat k, ''png'') = None" by (simp add: p'_def)
  then have failure': "load_new_font E p' k = Inl (ResourceMissingError (''Fonts/'' @ str_nat k) ''png'')"
    by (rule load_new_font_missing)
  have new: "append_new_fonts E p' [5..<MAX_FONT_INDEX] fs = append_new_fonts E p [5..<MAX_FONT_INDEX] fs" for fs
    using append_new_fonts_upto [OF k before' failure'] append_new_fonts_upto [OF k before failure]
    by simp
  have credits: "read_credits_font_from_project E m' p' = read_credits_font_from_project E m' p" for m'
    using credits_not_font_name [of k]
    by (simp add: read_credits_font_from_project_def resource_open_def p'_def)
  show "read_from_project E m p = read_from_project E m (p((''Fonts/'' @ str_nat k, ''png'') := None))"
    unfolding p'_def [symmetric] read_from_project_def base new credits ..
qed

text \<open>
  Claim C9. The discovery loop probes the indices of \<open>range(5, MAX_FONT_INDEX)\<close>, 59
  of them, so it appends at most 59 fonts, and after \<open>read_from_project\<close> returns the
  fonts list holds at most 64 fonts, whatever the project holds. (A call on a module with
  more than five fonts raises \<open>IndexError\<close> in the first loop.)
\<close>

theorem at_most_64_fonts_after_reading:
  assumes "read_from_project E m p = Inr m'"
  shows "length (fonts m') \<le> 64 \<and>
         (\<exists>fs. read_default_fonts E p 0 (fonts m) = Inr fs \<and>
               fonts m' = append_new_fonts E p [5..<MAX_FONT_INDEX] fs \<and>
               length (append_new_fonts E p [5..<MAX_FONT_INDEX] fs) \<le> length fs + 59)"
proof -
  from assms obtain fs where fs: "read_default_fonts E p 0 (fonts m) = Inr fs"
    and m': "read_credits_font_from_project E
               (m\<lparr>fonts := append_new_fonts E p [5..<MAX_FONT_INDEX] fs\<rparr>) p = Inr m'"
    by (auto simp: read_from_project_def split: sum.splits)
  from m' have fonts: "fonts m' = append_new_fonts E p [5..<MAX_FONT_INDEX] fs"
    by (auto simp: read_credits_font_from_project_def split: sum.splits)
  have "length [5..<MAX_FONT_INDEX] = 59"
    by (simp only: length_upt MAX_FONT_INDEX_def)
  with append_new_fonts_length [of E p "[5..<MAX_FONT_INDEX]" fs]
  have len: "length (append_new_fonts E p [5..<MAX_FONT_INDEX] fs) \<le> length fs + 59"
    by (simp only:)
  have "length FONT_FILENAMES = 5" by (simp add: FONT_FILENAMES_def)
  with read_default_fonts_length [OF fs] have "length fs \<le> 5"
    by (cases fs) auto
  with len have "length (append_new_fonts E p [5..<MAX_FONT_INDEX] fs) \<le> 64"
    by linarith
  with fonts have "length (fonts m') \<le> 64" by (simp only:)
  with fs fonts len show ?thesis by blast
qed


lemma gapped_default_fonts:
  "read_default_fonts example_externals gapped_project 0 (fonts (FontModule_init example_table)) =
   Inr [example_font 16 16 10, example_font 16 16 11, example_font 8 16 13,
        example_font 8 8 14, example_font 16 16 12]"
  by (simp add: example_simps)

lemma gapped_load_5:
  "\<forall>j\<in>{5..<6}. load_new_font example_externals gapped_project j = Inr (example_font 16 16 15)"
proof
  fix j :: nat assume "j \<in> {5..<6}"
  then have "j = 5" by auto
  then show "load_new_font example_externals gapped_project j = Inr (example_font 16 16 15)"
    by (simp add: example_simps str_nat.simps)
qed

lemma gapped_missing_6: "gapped_project (''Fonts/'' @ str_nat 6, ''png'') = None"
  by (simp add: example_simps str_nat.simps)

theorem discovery_stops_at_first_missing_resource_witness:
  "read_from_project example_externals (FontModule_init example_table) gapped_project =
     Inr \<lparr>font_pointer_table = example_table,
          fonts = [example_font 16 16 10, example_font 16 16 11, example_font 8 16 13,
                   example_font 8 8 14, example_font 16 16 12, example_font 16 16 15],
          credits_font = EbCreditsFont\<rparr> \<and>
   append_new_fonts example_externals extended_project [5..<MAX_FONT_INDEX]
       [example_font 16 16 10, example_font 16 16 11, example_font 8 16 13,
        example_font 8 8 14, example_font 16 16 12] =
     [example_font 16 16 10, example_font 16 16 11, example_font 8 16 13,
      example_font 8 8 14, example_font 16 16 12, example_font 16 16 15]"
proof -
  have k: "(5::nat) \<le> 6" "6 < MAX_FONT_INDEX" by (simp_all add: MAX_FONT_INDEX_def)
  note step = discovery_stops_at_first_missing_resource
    [OF k gapped_load_5 gapped_missing_6 gapped_default_fonts]
  have agree: "\<forall>j\<in>{5..6}.
      extended_project (''Fonts/'' @ str_nat j, ''png'') = gapped_project (''Fonts/'' @ str_nat j, ''png'') \<and>
      extended_project (''Fonts/'' @ str_nat j @ ''_widths'', ''yml'') =
        gapped_project (''Fonts/'' @ str_nat j @ ''_widths'', ''yml'')"
  proof
    fix j :: nat assume "j \<in> {5..6}"
    then have "j = 5 \<or> j = 6" by auto
    then show "extended_project (''Fonts/'' @ str_nat j, ''png'') = gapped_project (''Fonts/'' @ str_nat j, ''png'') \<and>
      extended_project (''Fonts/'' @ str_nat j @ ''_widths'', ''yml'') =
        gapped_project (''Fonts/'' @ str_nat j @ ''_widths'', ''yml'')"
      by (auto simp: extended_project_def str_nat.simps digit_char_def)
  qed
  have upt: "[5..<6] = [5::nat]" by (simp add: upt_rec)
  from step agree show ?thesis
    by (simp add: upt read_credits_font_from_project_def example_simps)
qed

lemma corrupt_load_5:
  "\<forall>j\<in>{5..<6}. load_new_font example_externals corrupt_project j = Inr (example_font 16 16 15)"
proof
  fix j :: nat assume "j \<in> {5..<6}"
  then have "j = 5" by auto
  then show "load_new_font example_externals corrupt_project j = Inr (example_font 16 16 15)"
    by (simp add: example_simps str_nat.simps)
qed

lemma corrupt_load_6: "load_new_font example_externals corrupt_project 6 = Inl FormatError"
  by (simp add: example_simps str_nat.simps)

theorem discovery_ends_on_any_failure_witness:
  "append_new_fonts example_externals corrupt_project [5..<MAX_FONT_INDEX] [] =
     [example_font 16 16 15] \<and>
   read_from_project example_externals (FontModule_init example_table) corrupt_project =
   read_from_project example_externals (FontModule_init example_table)
     (corrupt_project((''Fonts/6'', ''png'') := None)) \<and>
   corrupt_project (''Fonts/6'', ''png'') = Some (RawFile [1, 2, 3])"
proof -
  have k: "(5::nat) \<le> 6" "6 < MAX_FONT_INDEX" by (simp_all add: MAX_FONT_INDEX_def)
  note step = discovery_ends_on_any_failure
    [OF k corrupt_load_5 corrupt_load_6, of "[]" "FontModule_init example_table"]
  have upt: "[5..<6] = [5::nat]" by (simp add: upt_rec)
  have name: "str_nat 6 = ''6''" by (simp add: str_nat.simps digit_char_def)
  have present: "corrupt_project (''Fonts/6'', ''png'') = Some (RawFile [1, 2, 3])"
    by (simp add: corrupt_project_def)
  from step show ?thesis
    by (simp add: upt name present)
qed

lemma full_load: "load_new_font example_externals full_project j = Inr (example_font 16 16 7)"
  by (simp add: example_simps)

theorem at_most_64_fonts_after_reading_witness:
  "(case read_from_project example_externals (FontModule_init example_table) full_project of
      Inl e \<Rightarrow> False
    | Inr m' \<Rightarrow> length (fonts m') \<le> 64 \<and> length (fonts m') = 64)"
proof -
  have base: "read_default_fonts example_externals full_project 0 (fonts (FontModule_init example_table)) =
     Inr [example_font 16 16 7, example_font 16 16 7, example_font 8 16 7,
          example_font 8 8 7, example_font 16 16 7]"
    by (simp add: example_simps)
  have "\<forall>j\<in>set [5..<MAX_FONT_INDEX]. load_new_font example_externals full_project j =
      Inr ((\<lambda>j. example_font 16 16 7) j)"
    by (simp add: full_load)
  note new = append_new_fonts_all [OF this]
  have credits: "read_credits_font_from_project example_externals m full_project = Inr m" for m
    by (simp add: read_credits_font_from_project_def resource_open_def full_project_def
          example_externals_def)
  obtain m' where m': "read_from_project example_externals (FontModule_init example_table) full_project = Inr m'"
    by (simp add: read_from_project_def base credits)
  from at_most_64_fonts_after_reading [OF m']
  have "length (fonts m') \<le> 64" and "fonts m' = append_new_fonts example_externals full_project [5..<MAX_FONT_INDEX]
     [example_font 16 16 7, example_font 16 16 7, example_font 8 16 7,
          example_font 8 8 7, example_font 16 16 7]"
    by (simp_all add: base)
  moreover have "length [5..<MAX_FONT_INDEX] = 59" by (simp only: length_upt MAX_FONT_INDEX_def) 
  ultimately show ?thesis
    by (simp add: m' new del: upt_rec_numeral)
qed

section \<open>The names of the base fonts\<close>

lemma write_fonts_to_project_bound:
  "write_fonts_to_project E i fs p = Inr p' \<Longrightarrow> fs \<noteq> [] \<Longrightarrow> i + length fs \<le> length FONT_FILENAMES"
proof (induction fs arbitrary: i p)
  case Nil
  then show ?case by simp
next
  case (Cons font rest)
  from Cons.prems(1) have i: "i < length FONT_FILENAMES"
    by (simp split: if_splits)
  show ?case
  proof (cases rest)
    case Nil
    with i show ?thesis by simp
  next
    case (Cons a list)
    from Cons.prems(1) i obtain p1 where "write_fonts_to_project E (Suc i) rest p1 = Inr p'"
      by (auto split: sum.splits prod.splits)
    from Cons.IH [OF this] Cons show ?thesis by simp
  qed
qed

lemma write_fonts_to_project_frame:
  "write_fonts_to_project E i fs p = Inr p' \<Longrightarrow>
   \<forall>j. i \<le> j \<and> j < i + length fs \<longrightarrow>
       key \<noteq> (''Fonts/'' @ FONT_FILENAMES ! j, ''png'') \<and>
       key \<noteq> (''Fonts/'' @ FONT_FILENAMES ! j @ ''_widths'', ''yml'') \<Longrightarrow>
   p' key = p key"
proof (induction fs arbitrary: i p)
  case Nil
  then show ?case by simp
next
  case (Cons font rest)
  from Cons.prems(1) obtain image_file widths_file where
    rest: "write_fonts_to_project E (Suc i) rest
       (p((''Fonts/'' @ FONT_FILENAMES ! i, ''png'') \<mapsto> image_file,
          (''Fonts/'' @ FONT_FILENAMES ! i @ ''_widths'', ''yml'') \<mapsto> widths_file)) = Inr p'"
    by (auto split: sum.splits prod.splits if_splits)
  have "p' key = (p((''Fonts/'' @ FONT_FILENAMES ! i, ''png'') \<mapsto> image_file,
          (''Fonts/'' @ FONT_FILENAMES ! i @ ''_widths'', ''yml'') \<mapsto> widths_file)) key"
    using Cons.prems(2) by (intro Cons.IH [OF rest]) auto
  also have "\<dots> = p key"
    using Cons.prems(2) [rule_format, of i] by simp
  finally show ?case .
qed

lemma write_fonts_to_project_files:
  "write_fonts_to_project E i fs p = Inr p' \<Longrightarrow> j < length fs \<Longrightarrow>
   \<exists>image_file widths_file.
     font_to_files E (fs ! j) = Inr (image_file, widths_file) \<and>
     p' (''Fonts/'' @ FONT_FILENAMES ! (i + j), ''png'') = Some image_file \<and>
     p' (''Fonts/'' @ FONT_FILENAMES ! (i + j) @ ''_widths'', ''yml'') = Some widths_file"
proof (induction fs arbitrary: i p j)
  case Nil
  then show ?case by simp
next
  case (Cons font rest)
  from Cons.prems(1) have bound: "i + length (font # rest) \<le> length FONT_FILENAMES"
    by (rule write_fonts_to_project_bound) simp
  from Cons.prems(1) obtain image_file widths_file where
    files: "font_to_files E font = Inr (image_file, widths_file)" and
    rest: "write_fonts_to_project E (Suc i) rest
       (p((''Fonts/'' @ FONT_FILENAMES ! i, ''png'') \<mapsto> image_file,
          (''Fonts/'' @ FONT_FILENAMES ! i @ ''_widths'', ''yml'') \<mapsto> widths_file)) = Inr p'"
    by (auto split: sum.splits prod.splits if_splits)
  show ?case
  proof (cases j)
    case 0
    have other: "FONT_FILENAMES ! i \<noteq> FONT_FILENAMES ! k" if "Suc i \<le> k" "k < Suc i + length rest" for k
      using that bound by (intro FONT_FILENAMES_nth_neq) simp_all
    have "p' (''Fonts/'' @ FONT_FILENAMES ! i, ''png'') =
        (p((''Fonts/'' @ FONT_FILENAMES ! i, ''png'') \<mapsto> image_file,
          (''Fonts/'' @ FONT_FILENAMES ! i @ ''_widths'', ''yml'') \<mapsto> widths_file))
          (''Fonts/'' @ FONT_FILENAMES ! i, ''png'')"
      using other by (intro write_fonts_to_project_frame [OF rest]) simp
    moreover have "p' (''Fonts/'' @ FONT_FILENAMES ! i @ ''_widths'', ''yml'') =
        (p((''Fonts/'' @ FONT_FILENAMES ! i, ''png'') \<mapsto> image_file,
          (''Fonts/'' @ FONT_FILENAMES ! i @ ''_widths'', ''yml'') \<mapsto> widths_file))
          (''Fonts/'' @ FONT_FILENAMES ! i @ ''_widths'', ''yml'')"
      using other by (intro write_fonts_to_project_frame [OF rest]) simp
    ultimately show ?thesis using 0 files by simp
  next
    case (Suc j')
    with Cons.prems(2) have "j' < length rest" by simp
    from Cons.IH [OF rest this] Suc show ?thesis by simp
  qed
qed

lemma read_default_fonts_files:
  "read_default_fonts E p i fs = Inr fs' \<Longrightarrow> j < length fs \<Longrightarrow>
   \<exists>image_file widths_file.
     p (''Fonts/'' @ FONT_FILENAMES ! (i + j), ''png'') = Some image_file \<and>
     p (''Fonts/'' @ FONT_FILENAMES ! (i + j) @ ''_widths'', ''yml'') = Some widths_file \<and>
     font_from_files E (fs ! j) image_file widths_file = Inr (fs' ! j)"
proof (induction fs arbitrary: i j fs')
  case Nil
  then show ?case by simp
next
  case (Cons font rest)
  from Cons.prems(1) obtain image_file widths_file font' rest' where
    img: "p (''Fonts/'' @ FONT_FILENAMES ! i, ''png'') = Some image_file" and
    wid: "p (''Fonts/'' @ FONT_FILENAMES ! i @ ''_widths'', ''yml'') = Some widths_file" and
    font': "font_from_files E font image_file widths_file = Inr font'" and
    rest: "read_default_fonts E p (Suc i) rest = Inr rest'" and
    fs': "fs' = font' # rest'"
    by (auto simp: resource_open_def split: sum.splits option.splits if_splits)
  show ?case
  proof (cases j)
    case 0
    with img wid font' fs' show ?thesis by simp
  next
    case (Suc j')
    with Cons.prems(2) have "j' < length rest" by simp
    from Cons.IH [OF rest this] Suc fs' show ?thesis by simp
  qed
qed

lemma append_new_fonts_prefix: "\<exists>ys. append_new_fonts E p xs fs = fs @ ys"
proof (induction xs arbitrary: fs)
  case Nil
  then show ?case by simp
next
  case (Cons x xs)
  show ?case
  proof (cases "load_new_font E p x")
    case (Inl e)
    then show ?thesis by simp
  next
    case (Inr f)
    with Cons [of "fs @ [f]"] show ?thesis by auto
  qed
qed

lemma FONT_FILENAMES_permutation:
  "distinct FONT_FILENAMES \<and> set FONT_FILENAMES = str_nat ` {0..<5} \<and>
   FONT_FILENAMES \<noteq> map str_nat [0..<5] \<and>
   map (\<lambda>i. ''Fonts/'' @ FONT_FILENAMES ! i) [2, 3, 4] = [''Fonts/3'', ''Fonts/4'', ''Fonts/2'']"
proof -
  have "{0..<5} = {0, 1, 2, 3, 4::nat}" by auto
  then have "str_nat ` {0..<5} = {''0'', ''1'', ''2'', ''3'', ''4''}"
    by (simp add: str_nat.simps digit_char_def)
  moreover have "map str_nat [0..<5] = [''0'', ''1'', ''2'', ''3'', ''4'']"
    by (simp add: str_nat.simps digit_char_def upt_rec)
  ultimately show ?thesis
    by (auto simp: FONT_FILENAMES_def)
qed

text \<open>
  Claim C10. The five base fonts are stored under the names of \<open>FONT_FILENAMES\<close>,
  a permutation of "0" to "4" that is not the identity: font 2 is stored as "Fonts/3",
  font 3 as "Fonts/4" and font 4 as "Fonts/2". \<open>write_to_project\<close> and
  \<open>read_from_project\<close> use the same list: after a write that returns, the resources
  named for font \<open>i\<close> hold the files of font \<open>i\<close>, and a read of that project reads
  font \<open>i\<close> from exactly these files.
\<close>

theorem project_round_trip_pairs_fonts_with_files:
  assumes w: "write_to_project E m p = Inr p'"
    and r: "read_from_project E m2 p' = Inr m2'"
    and len: "length (fonts m2) = length (fonts m)"
    and i: "i < length (fonts m)"
  shows "distinct FONT_FILENAMES \<and> set FONT_FILENAMES = str_nat ` {0..<5} \<and>
         FONT_FILENAMES \<noteq> map str_nat [0..<5] \<and>
         map (\<lambda>i. ''Fonts/'' @ FONT_FILENAMES ! i) [2, 3, 4] = [''Fonts/3'', ''Fonts/4'', ''Fonts/2''] \<and>
         (\<exists>image_file widths_file.
            font_to_files E (fonts m ! i) = Inr (image_file, widths_file) \<and>
            p' (''Fonts/'' @ FONT_FILENAMES ! i, ''png'') = Some image_file \<and>
            p' (''Fonts/'' @ FONT_FILENAMES ! i @ ''_widths'', ''yml'') = Some widths_file \<and>
            font_from_files E (fonts m2 ! i) image_file widths_file = Inr (fonts m2' ! i))"
proof -
  from w obtain p1 where p1: "write_fonts_to_project E 0 (fonts m) p = Inr p1"
    and credits: "write_credits_font_to_project E m p1 = Inr p'"
    by (auto simp: write_to_project_def split: sum.splits)
  from i have ne: "fonts m \<noteq> []" by auto
  from write_fonts_to_project_bound [OF p1 ne] i have i5: "i < length FONT_FILENAMES"
    by simp
  from write_fonts_to_project_files [OF p1 i] obtain image_file widths_file where
    files: "font_to_files E (fonts m ! i) = Inr (image_file, widths_file)" and
    img1: "p1 (''Fonts/'' @ FONT_FILENAMES ! i, ''png'') = Some image_file" and
    wid1: "p1 (''Fonts/'' @ FONT_FILENAMES ! i @ ''_widths'', ''yml'') = Some widths_file"
    by auto
  from credits obtain c where p': "p' = p1((''Fonts/credits'', ''png'') \<mapsto> c)"
    by (auto simp: write_credits_font_to_project_def split: sum.splits)
  from credits_not_default_name [OF i5]
  have img: "p' (''Fonts/'' @ FONT_FILENAMES ! i, ''png'') = Some image_file"
    and wid: "p' (''Fonts/'' @ FONT_FILENAMES ! i @ ''_widths'', ''yml'') = Some widths_file"
    using img1 wid1 by (simp_all add: p')
  from r obtain fs where fs: "read_default_fonts E p' 0 (fonts m2) = Inr fs"
    and m2': "read_credits_font_from_project E
               (m2\<lparr>fonts := append_new_fonts E p' [5..<MAX_FONT_INDEX] fs\<rparr>) p' = Inr m2'"
    by (auto simp: read_from_project_def split: sum.splits)
  from m2' have fonts: "fonts m2' = append_new_fonts E p' [5..<MAX_FONT_INDEX] fs"
    by (auto simp: read_credits_font_from_project_def split: sum.splits)
  from i len have i2: "i < length (fonts m2)" by simp
  from read_default_fonts_length [OF fs] have "length fs = length (fonts m2)" by simp
  with i2 append_new_fonts_prefix [of E p' "[5..<MAX_FONT_INDEX]" fs] fonts
  have nth: "fonts m2' ! i = fs ! i" by (auto simp: nth_append)
  from read_default_fonts_files [OF fs i2] img wid nth
  have "font_from_files E (fonts m2 ! i) image_file widths_file = Inr (fonts m2' ! i)"
    by auto
  with files img wid FONT_FILENAMES_permutation show ?thesis by blast
qed

theorem project_round_trip_pairs_fonts_with_files_witness:
  "(case write_to_project example_externals example_module Map.empty of
      Inl e \<Rightarrow> False
    | Inr p' \<Rightarrow>
        p' (''Fonts/3'', ''png'') = Some (PngFile (example_glyph 12)) \<and>
        (case read_from_project example_externals (FontModule_init example_table) p' of
           Inl e \<Rightarrow> False
         | Inr m2' \<Rightarrow> fonts m2' ! 2 = example_font 8 16 12))"
proof -
  define P where "P = (case write_to_project example_externals example_module Map.empty of
      Inl e \<Rightarrow> Map.empty | Inr p' \<Rightarrow> p')"
  have w: "write_to_project example_externals example_module Map.empty = Inr P"
    by (simp add: P_def write_to_project_def write_credits_font_to_project_def
          example_module_def example_simps)
  obtain m2' where r: "read_from_project example_externals (FontModule_init example_table) P = Inr m2'"
    by (simp add: P_def write_to_project_def write_credits_font_to_project_def
          read_from_project_def read_credits_font_from_project_def MAX_FONT_INDEX_def
          example_module_def example_simps str_nat.simps)
  have len: "length (fonts (FontModule_init example_table)) = length (fonts example_module)"
    by (simp add: example_module_def FontModule_init_def)
  have i: "2 < length (fonts example_module)"
    by (simp add: example_module_def)
  from project_round_trip_pairs_fonts_with_files [OF w r len i]
  have "P (''Fonts/3'', ''png'') = Some (PngFile (example_glyph 12)) \<and>
        fonts m2' ! 2 = example_font 8 16 12"
    by (auto simp: example_module_def example_simps)
  then show ?thesis by (simp add: w r)
qed

section \<open>Upgrading from version 5 to version 6\<close>

lemma fill_row_px:
  "im_px (fill_row im y xs) (x', y') = (if y' = y \<and> x' \<in> set xs then 1 else im_px im (x', y'))"
  by (induction xs arbitrary: im) (auto simp: putpixel_def)

lemma fill_row_size:
  "im_w (fill_row im y xs) = im_w im \<and> im_h (fill_row im y xs) = im_h im \<and>
   im_palette (fill_row im y xs) = im_palette im"
  by (induction xs arbitrary: im) (auto simp: putpixel_def)

lemma fill_image_px:
  "im_px (fill_image im ys w) (x', y') = (if y' \<in> set ys \<and> x' < w then 1 else im_px im (x', y'))"
  by (induction ys arbitrary: im) (auto simp: fill_row_px)

lemma fill_image_size:
  "im_w (fill_image im ys w) = im_w im \<and> im_h (fill_image im ys w) = im_h im \<and>
   im_palette (fill_image im ys w) = im_palette im"
  by (induction ys arbitrary: im) (auto simp: fill_row_size)

lemma add_missing_widths_lookup:
  "add_missing_widths cs d c =
     (case d c of Some w \<Rightarrow> Some w | None \<Rightarrow> if c \<in> set cs then Some 0 else None)"
  by (induction cs arbitrary: d) (auto split: option.splits)

lemma expand_font_result:
  assumes "expand_font E i font p = Inr p'"
  shows "i < length FONT_FILENAMES \<and>
    (\<exists>im d im' d'.
       p (''Fonts/'' @ FONT_FILENAMES ! i, ''png'') = Some (PngFile im) \<and>
       p (''Fonts/'' @ FONT_FILENAMES ! i @ ''_widths'', ''yml'') = Some (YmlFile d) \<and>
       p' = p((''Fonts/'' @ FONT_FILENAMES ! i, ''png'') \<mapsto> PngFile im',
              (''Fonts/'' @ FONT_FILENAMES ! i @ ''_widths'', ''yml'') \<mapsto> YmlFile d') \<and>
       ((im_w im', im_h im') = image_size E font \<and>
        im_palette im' = FONT_IMAGE_PALETTE E \<and>
        (\<forall>x y. x < im_w im' \<and> y < im_h im' \<longrightarrow>
           im_px im' (x, y) = (if x < im_w im \<and> y < im_h im then im_px im (x, y) else 1))) \<and>
       (\<forall>c. d' c = (case d c of Some w \<Rightarrow> Some w
                      | None \<Rightarrow> if 96 \<le> c \<and> c < 128 then Some 0 else None)))"
proof -
  from assms have i: "i < length FONT_FILENAMES"
    by (simp add: expand_font_def split: if_splits)
  obtain w h where wh: "image_size E font = (w, h)" by (cases "image_size E font")
  note defs = expand_font_def resource_open_def open_indexed_image_def yml_load_def Let_def
  show ?thesis
  proof (cases "p (''Fonts/'' @ FONT_FILENAMES ! i, ''png'')")
    case None
    with assms i wh show ?thesis by (simp add: defs)
  next
    case f: (Some image_file)
    show ?thesis
    proof (cases image_file)
      case (YmlFile d)
      with assms i wh f show ?thesis by (simp add: defs)
    next
      case (RawFile bs)
      with assms i wh f show ?thesis by (simp add: defs)
    next
      case im: (PngFile im)
      define im' where "im' = paste (palette_to_image (FONT_IMAGE_PALETTE E)
                    (fill_image (Image_new w h) [0..<h] w)) im"
      have wide: "(im_w im', im_h im') = image_size E font \<and>
        im_palette im' = FONT_IMAGE_PALETTE E \<and>
        (\<forall>x y. x < im_w im' \<and> y < im_h im' \<longrightarrow>
           im_px im' (x, y) = (if x < im_w im \<and> y < im_h im then im_px im (x, y) else 1))"
        by (auto simp: im'_def wh paste_def palette_to_image_def
            fill_image_px fill_image_size Image_new_def)
      show ?thesis
      proof (cases "p (''Fonts/'' @ FONT_FILENAMES ! i @ ''_widths'', ''yml'')")
        case None
        with assms i wh f im show ?thesis by (simp add: defs)
      next
        case g: (Some widths_file)
        show ?thesis
        proof (cases widths_file)
          case (PngFile x)
          with assms i wh f im g show ?thesis by (simp add: defs)
        next
          case (RawFile bs)
          with assms i wh f im g show ?thesis by (simp add: defs)
        next
          case d: (YmlFile d)
          from assms i wh f im g d
          have p': "p' = p((''Fonts/'' @ FONT_FILENAMES ! i, ''png'') \<mapsto> PngFile im',
              (''Fonts/'' @ FONT_FILENAMES ! i @ ''_widths'', ''yml'') \<mapsto>
                 YmlFile (add_missing_widths [96..127] d))"
            by (simp add: defs im'_def del: upto_rec_numeral)
          have "\<forall>c. add_missing_widths [96..127] d c =
                 (case d c of Some w \<Rightarrow> Some w
                  | None \<Rightarrow> if 96 \<le> c \<and> c < 128 then Some 0 else None)"
            by (auto simp: add_missing_widths_lookup
                simp del: upto_rec_numeral split: option.splits)
          with wide i f g im d p' show ?thesis by blast
        qed
      qed
    qed
  qed
qed


lemma expand_fonts_bound:
  "expand_fonts E i fs p = Inr p' \<Longrightarrow> fs \<noteq> [] \<Longrightarrow> i + length fs \<le> length FONT_FILENAMES"
proof (induction fs arbitrary: i p)
  case Nil
  then show ?case by simp
next
  case (Cons font rest)
  from Cons.prems(1) obtain p1 where p1: "expand_font E i font p = Inr p1"
    and rest: "expand_fonts E (Suc i) rest p1 = Inr p'"
    by (auto split: sum.splits)
  from expand_font_result [OF p1] have i: "i < length FONT_FILENAMES" by simp
  show ?case
  proof (cases rest)
    case Nil
    with i show ?thesis by simp
  next
    case (Cons a list)
    with Cons.IH [OF rest] show ?thesis by simp
  qed
qed

lemma expand_font_frame:
  assumes "expand_font E i font p = Inr p'"
    and "key \<noteq> (''Fonts/'' @ FONT_FILENAMES ! i, ''png'')"
    and "key \<noteq> (''Fonts/'' @ FONT_FILENAMES ! i @ ''_widths'', ''yml'')"
  shows "p' key = p key"
  using expand_font_result [OF assms(1)] assms(2,3) by auto

lemma expand_fonts_frame:
  "expand_fonts E i fs p = Inr p' \<Longrightarrow>
   \<forall>j. i \<le> j \<and> j < i + length fs \<longrightarrow>
       key \<noteq> (''Fonts/'' @ FONT_FILENAMES ! j, ''png'') \<and>
       key \<noteq> (''Fonts/'' @ FONT_FILENAMES ! j @ ''_widths'', ''yml'') \<Longrightarrow>
   p' key = p key"
proof (induction fs arbitrary: i p)
  case Nil
  then show ?case by simp
next
  case (Cons font rest)
  from Cons.prems(1) obtain p1 where p1: "expand_font E i font p = Inr p1"
    and rest: "expand_fonts E (Suc i) rest p1 = Inr p'"
    by (auto split: sum.splits)
  have "p' key = p1 key"
    using Cons.prems(2) by (intro Cons.IH [OF rest]) auto
  also have "\<dots> = p key"
    using Cons.prems(2) [rule_format, of i] by (intro expand_font_frame [OF p1]) simp_all
  finally show ?case .
qed

lemma expand_fonts_result:
  "expand_fonts E i fs p = Inr p' \<Longrightarrow> j < length fs \<Longrightarrow>
   \<exists>im d im' d'.
     p (''Fonts/'' @ FONT_FILENAMES ! (i + j), ''png'') = Some (PngFile im) \<and>
     p (''Fonts/'' @ FONT_FILENAMES ! (i + j) @ ''_widths'', ''yml'') = Some (YmlFile d) \<and>
     p' (''Fonts/'' @ FONT_FILENAMES ! (i + j), ''png'') = Some (PngFile im') \<and>
     p' (''Fonts/'' @ FONT_FILENAMES ! (i + j) @ ''_widths'', ''yml'') = Some (YmlFile d') \<and>
     ((im_w im', im_h im') = image_size E (fs ! j) \<and>
      im_palette im' = FONT_IMAGE_PALETTE E \<and>
      (\<forall>x y. x < im_w im' \<and> y < im_h im' \<longrightarrow>
         im_px im' (x, y) = (if x < im_w im \<and> y < im_h im then im_px im (x, y) else 1))) \<and>
     (\<forall>c. d' c = (case d c of Some w \<Rightarrow> Some w
                   | None \<Rightarrow> if 96 \<le> c \<and> c < 128 then Some 0 else None))"
proof (induction fs arbitrary: i p j)
  case Nil
  then show ?case by simp
next
  case (Cons font rest)
  from Cons.prems(1) have bound: "i + length (font # rest) \<le> length FONT_FILENAMES"
    by (rule expand_fonts_bound) simp
  from Cons.prems(1) obtain p1 where p1: "expand_font E i font p = Inr p1"
    and rest: "expand_fonts E (Suc i) rest p1 = Inr p'"
    by (auto split: sum.splits)
  show ?case
  proof (cases j)
    case 0
    have other: "FONT_FILENAMES ! i \<noteq> FONT_FILENAMES ! k" if "Suc i \<le> k" "k < Suc i + length rest" for k
      using that bound by (intro FONT_FILENAMES_nth_neq) simp_all
    have "p' (''Fonts/'' @ FONT_FILENAMES ! i, ''png'') = p1 (''Fonts/'' @ FONT_FILENAMES ! i, ''png'')"
      using other by (intro expand_fonts_frame [OF rest]) simp
    moreover have "p' (''Fonts/'' @ FONT_FILENAMES ! i @ ''_widths'', ''yml'') =
        p1 (''Fonts/'' @ FONT_FILENAMES ! i @ ''_widths'', ''yml'')"
      using other by (intro expand_fonts_frame [OF rest]) simp
    ultimately show ?thesis
      using expand_font_result [OF p1] 0 by auto
  next
    case (Suc j')
    with Cons.prems(2) have j': "j' < length rest" by simp
    with bound have "FONT_FILENAMES ! (Suc i + j') \<noteq> FONT_FILENAMES ! i"
      by (intro FONT_FILENAMES_nth_neq) simp_all
    then have "p1 (''Fonts/'' @ FONT_FILENAMES ! (Suc i + j'), ''png'') =
        p (''Fonts/'' @ FONT_FILENAMES ! (Suc i + j'), ''png'')"
      and "p1 (''Fonts/'' @ FONT_FILENAMES ! (Suc i + j') @ ''_widths'', ''yml'') =
        p (''Fonts/'' @ FONT_FILENAMES ! (Suc i + j') @ ''_widths'', ''yml'')"
      by (simp_all add: expand_font_frame [OF p1])
    with Cons.IH [OF rest j'] Suc show ?thesis by simp
  qed
qed

lemma upgrade_project_unfold:
  "0 < depth \<Longrightarrow>
   upgrade_project depth E m old_version new_version r p =
     (if old_version = new_version then Inr (m, p)
      else if old_version = 5 then
        (case expand_fonts E 0 (fonts m) p of
           Inl e \<Rightarrow> Inl e
         | Inr p' \<Rightarrow> upgrade_project (depth - 1) E m 6 new_version r p')
      else if old_version \<le> 2 then
        (case read_credits_font_from_rom E m r of
           Inl e \<Rightarrow> Inl e
         | Inr m' \<Rightarrow>
        (case write_credits_font_to_project E m' p of
           Inl e \<Rightarrow> Inl e
         | Inr p' \<Rightarrow> upgrade_project (depth - 1) E m' 3 new_version r p'))
      else upgrade_project (depth - 1) E m (old_version + 1) new_version r p)"
proof -
  assume "0 < depth"
  then obtain d where d: "depth = Suc d" by (cases depth) auto
  show ?thesis unfolding d by (simp cong: sum.case_cong)
qed

text \<open>
  Claim C5. The step from version 5 to version 6 rewrites the two resources of every
  font. The new image has the font's image size and the shared palette; inside it, every
  pixel that the old image covers from the origin keeps the old image's value and every
  other pixel is palette index 1. The new width mapping keeps every entry of the old one
  and maps every character index from 96 to 127 that had no entry to 0; no other index
  gets an entry.
\<close>

theorem migration_v5_to_v6_widens_fonts:
  assumes "upgrade_project depth E m 5 6 r p = Inr (m', p')"
    and "i < length (fonts m)"
  shows "\<exists>im d im' d'.
     p (''Fonts/'' @ FONT_FILENAMES ! i, ''png'') = Some (PngFile im) \<and>
     p (''Fonts/'' @ FONT_FILENAMES ! i @ ''_widths'', ''yml'') = Some (YmlFile d) \<and>
     p' (''Fonts/'' @ FONT_FILENAMES ! i, ''png'') = Some (PngFile im') \<and>
     p' (''Fonts/'' @ FONT_FILENAMES ! i @ ''_widths'', ''yml'') = Some (YmlFile d') \<and>
     ((im_w im', im_h im') = image_size E (fonts m ! i) \<and>
      im_palette im' = FONT_IMAGE_PALETTE E \<and>
      (\<forall>x y. x < im_w im' \<and> y < im_h im' \<longrightarrow>
         im_px im' (x, y) = (if x < im_w im \<and> y < im_h im then im_px im (x, y) else 1))) \<and>
     (\<forall>c. d' c = (case d c of Some w \<Rightarrow> Some w
                   | None \<Rightarrow> if 96 \<le> c \<and> c < 128 then Some 0 else None))"
proof -
  from assms(1) obtain d1 where d1: "depth = Suc d1" by (cases depth) auto
  from assms(1) obtain q where q: "expand_fonts E 0 (fonts m) p = Inr q"
    and rest: "upgrade_project d1 E m 6 6 r q = Inr (m', p')"
    by (auto simp: d1 split: sum.splits)
  from rest have "q = p'" by (cases d1) auto
  with q have "expand_fonts E 0 (fonts m) p = Inr p'" by simp
  from expand_fonts_result [OF this assms(2)] show ?thesis by simp
qed

theorem migration_v5_to_v6_widens_fonts_witness:
  "(case upgrade_project 1000 example_externals (FontModule_init example_table) 5 6 example_rom
          v5_project of
      Inl e \<Rightarrow> False
    | Inr (m', p') \<Rightarrow>
        (case p' (''Fonts/0'', ''png'') of
           Some (PngFile im') \<Rightarrow>
             im_w im' = 256 \<and> im_h im' = 128 \<and> im_px im' (3, 4) = 2 \<and>
             im_px im' (200, 100) = 1 \<and> im_px im' (3, 96) = 1
         | _ \<Rightarrow> False) \<and>
        (case p' (''Fonts/0_widths'', ''yml'') of
           Some (YmlFile d') \<Rightarrow>
             d' 0 = Some 5 \<and> d' 10 = Some 3 \<and> d' 96 = Some 0 \<and> d' 127 = Some 0 \<and>
             d' 95 = None \<and> d' 128 = None
         | _ \<Rightarrow> False))"
proof -
  define P where "P = (case expand_fonts example_externals 0 (fonts (FontModule_init example_table)) v5_project of
      Inl e \<Rightarrow> Map.empty | Inr p' \<Rightarrow> p')"
  have e: "expand_fonts example_externals 0 (fonts (FontModule_init example_table)) v5_project = Inr P"
    by (simp add: P_def expand_font_def open_indexed_image_def yml_load_def
          v5_project_def v5_resources_def v5_image_def example_simps
          del: upt_rec_numeral upto_rec_numeral)
  have u: "upgrade_project 1000 example_externals (FontModule_init example_table) 5 6 example_rom
      v5_project = Inr (FontModule_init example_table, P)"
    by (simp add: upgrade_project_unfold e)
  have i: "0 < length (fonts (FontModule_init example_table))"
    by (simp add: FontModule_init_def)
  from migration_v5_to_v6_widens_fonts [OF u i] obtain im' d' where
    "P (''Fonts/0'', ''png'') = Some (PngFile im')"
    "P (''Fonts/0_widths'', ''yml'') = Some (YmlFile d')"
    "im_w im' = 256 \<and> im_h im' = 128 \<and> im_px im' (3, 4) = 2 \<and>
             im_px im' (200, 100) = 1 \<and> im_px im' (3, 96) = 1"
    "d' 0 = Some 5 \<and> d' 10 = Some 3 \<and> d' 96 = Some 0 \<and> d' 127 = Some 0 \<and>
             d' 95 = None \<and> d' 128 = None"
    by (auto simp: v5_project_def v5_resources_def v5_image_def example_simps)
  then show ?thesis by (simp add: u)
qed

section \<open>Termination of the upgrade walk\<close>

lemma upgrade_project_backwards:
  "5 < old_version \<Longrightarrow> new_version < old_version \<Longrightarrow>
   upgrade_project depth E m old_version new_version r p = Inl RecursionError"
  by (induction depth arbitrary: old_version) simp_all

lemma upgrade_project_plain_steps:
  "3 \<le> old_version \<Longrightarrow> old_version \<le> new_version \<Longrightarrow> 5 < old_version \<or> new_version \<le> 5 \<Longrightarrow>
   nat (new_version - old_version) < depth \<Longrightarrow>
   upgrade_project depth E m old_version new_version r p = Inr (m, p)"
proof (induction depth arbitrary: old_version)
  case 0
  then show ?case by simp
next
  case (Suc depth)
  show ?case
  proof (cases "old_version = new_version")
    case True
    then show ?thesis by simp
  next
    case False
    have "upgrade_project depth E m (old_version + 1) new_version r p = Inr (m, p)"
      by (rule Suc.IH) (use Suc.prems False in auto)
    with False Suc.prems show ?thesis by auto
  qed
qed

lemma upgrade_project_expanding_steps:
  "3 \<le> old_version \<Longrightarrow> old_version \<le> 5 \<Longrightarrow> 5 < new_version \<Longrightarrow>
   nat (new_version - old_version) < depth \<Longrightarrow>
   upgrade_project depth E m old_version new_version r p =
     (case expand_fonts E 0 (fonts m) p of Inl e \<Rightarrow> Inl e | Inr p2 \<Rightarrow> Inr (m, p2))"
proof (induction depth arbitrary: old_version)
  case 0
  then show ?case by simp
next
  case (Suc depth)
  show ?case
  proof (cases "old_version = 5")
    case True
    have "upgrade_project depth E m 6 new_version r q = Inr (m, q)" for q
      by (rule upgrade_project_plain_steps) (use Suc.prems True in auto)
    with True Suc.prems show ?thesis by (simp cong: sum.case_cong)
  next
    case False
    have "upgrade_project depth E m (old_version + 1) new_version r p =
      (case expand_fonts E 0 (fonts m) p of Inl e \<Rightarrow> Inl e | Inr p2 \<Rightarrow> Inr (m, p2))"
      by (rule Suc.IH) (use Suc.prems False in auto)
    with False Suc.prems show ?thesis by auto
  qed
qed

lemma upgrade_project_from_three:
  "3 \<le> old_version \<Longrightarrow> old_version \<le> new_version \<Longrightarrow> nat (new_version - old_version) < depth \<Longrightarrow>
   upgrade_project depth E m old_version new_version r p =
     (if old_version \<le> 5 \<and> 5 < new_version
      then (case expand_fonts E 0 (fonts m) p of Inl e \<Rightarrow> Inl e | Inr p2 \<Rightarrow> Inr (m, p2))
      else Inr (m, p))"
  using upgrade_project_plain_steps [of old_version new_version depth E m r p]
    upgrade_project_expanding_steps [of old_version new_version depth E m r p]
  by auto

lemma upgrade_project_returns_forward:
  "upgrade_project depth E m old_version new_version r p = Inr x \<Longrightarrow>
   0 < depth \<and>
   (old_version = new_version \<or>
    (old_version < new_version \<and> 3 \<le> new_version \<and>
     nat (new_version - max old_version 2) < depth))"
proof (induction depth arbitrary: old_version m p)
  case 0
  then show ?case by simp
next
  case (Suc depth)
  show ?case
  proof (cases "old_version = new_version")
    case True
    then show ?thesis by simp
  next
    case ne: False
    show ?thesis
    proof (cases "old_version = 5")
      case True
      with ne Suc.prems obtain p' where "upgrade_project depth E m 6 new_version r p' = Inr x"
        by (auto split: sum.splits)
      from Suc.IH [OF this] True show ?thesis by auto
    next
      case n5: False
      show ?thesis
      proof (cases "old_version \<le> 2")
        case True
        with ne n5 Suc.prems obtain m' p' where "upgrade_project depth E m' 3 new_version r p' = Inr x"
          by (auto split: sum.splits)
        from Suc.IH [OF this] True show ?thesis by auto
      next
        case False
        with ne n5 Suc.prems have "upgrade_project depth E m (old_version + 1) new_version r p = Inr x"
          by auto
        from Suc.IH [OF this] False show ?thesis by auto
      qed
    qed
  qed
qed

text \<open>
  Claim C2, as stated, fails: the walk does not reach the target version for every pair
  of versions. From version 7 towards version 6 every call takes the last branch and
  calls itself with the next higher version, until the interpreter's stack is used up:
  the call ends with \<open>RecursionError\<close>, here with room for 1000 nested calls.
\<close>

theorem upgrade_project_backwards_raises:
  "upgrade_project 1000 example_externals (FontModule_init example_table) 7 6 example_rom v5_project
     = Inl RecursionError"
  by (rule upgrade_project_backwards) simp_all

text \<open>
  Claim C2, amended. The walk always ends. When the old version equals the target it
  returns at once, with the module and the project as they were (the ROM is never written
  by the walk). When the old version is below the target, the target is at least 3, and
  the stack has room for the calls of the walk (one for the old version, and one for each
  version from 3, or from the version after the old one, up to the target), the walk
  reaches the target version after the steps on its way, and only them: the credits font
  is read from the ROM and written to the project when the old version is at most 2, then
  the fonts of the project are widened when the walk passes from version 5 to version 6;
  an exception of one of these steps ends the walk. In every other case the walk does not
  reach the target version: it ends with an exception, which is \<open>RecursionError\<close> when
  the old version is above 5 and above the target.
\<close>

theorem upgrade_project_walk_terminates:
  "(0 < depth \<longrightarrow> upgrade_project depth E m new_version new_version r p = Inr (m, p)) \<and>
   (old_version < new_version \<and> 3 \<le> new_version \<and>
    nat (new_version - max old_version 2) < depth \<longrightarrow>
      upgrade_project depth E m old_version new_version r p =
        (case (if old_version \<le> 2
               then (case read_credits_font_from_rom E m r of
                       Inl e \<Rightarrow> Inl e
                     | Inr m1 \<Rightarrow>
                         (case write_credits_font_to_project E m1 p of
                            Inl e \<Rightarrow> Inl e
                          | Inr p1 \<Rightarrow> Inr (m1, p1)))
               else Inr (m, p)) of
           Inl e \<Rightarrow> Inl e
         | Inr (m1, p1) \<Rightarrow>
             if old_version \<le> 5 \<and> 5 < new_version
             then (case expand_fonts E 0 (fonts m1) p1 of
                     Inl e \<Rightarrow> Inl e
                   | Inr p2 \<Rightarrow> Inr (m1, p2))
             else Inr (m1, p1))) \<and>
   (\<forall>x. upgrade_project depth E m old_version new_version r p = Inr x \<longrightarrow>
      0 < depth \<and>
      (old_version = new_version \<or>
       (old_version < new_version \<and> 3 \<le> new_version \<and>
        nat (new_version - max old_version 2) < depth))) \<and>
   (5 < old_version \<and> new_version < old_version \<longrightarrow>
      upgrade_project depth E m old_version new_version r p = Inl RecursionError)"
proof (intro conjI impI allI)
  assume "0 < depth"
  then show "upgrade_project depth E m new_version new_version r p = Inr (m, p)"
    by (simp add: upgrade_project_unfold)
next
  assume a: "old_version < new_version \<and> 3 \<le> new_version \<and>
    nat (new_version - max old_version 2) < depth"
  let ?rhs = "(case (if old_version \<le> 2
               then (case read_credits_font_from_rom E m r of
                       Inl e \<Rightarrow> Inl e
                     | Inr m1 \<Rightarrow>
                         (case write_credits_font_to_project E m1 p of
                            Inl e \<Rightarrow> Inl e
                          | Inr p1 \<Rightarrow> Inr (m1, p1)))
               else Inr (m, p)) of
           Inl e \<Rightarrow> Inl e
         | Inr (m1, p1) \<Rightarrow>
             if old_version \<le> 5 \<and> 5 < new_version
             then (case expand_fonts E 0 (fonts m1) p1 of
                     Inl e \<Rightarrow> Inl e
                   | Inr p2 \<Rightarrow> Inr (m1, p2))
             else Inr (m1, p1))"
  show "upgrade_project depth E m old_version new_version r p = ?rhs"
  proof (cases "old_version \<le> 2")
    case False
    with a have "upgrade_project depth E m old_version new_version r p =
      (if old_version \<le> 5 \<and> 5 < new_version
       then (case expand_fonts E 0 (fonts m) p of Inl e \<Rightarrow> Inl e | Inr p2 \<Rightarrow> Inr (m, p2))
       else Inr (m, p))"
      by (intro upgrade_project_from_three) auto
    with False show ?thesis by simp
  next
    case True
    from a obtain d where d: "depth = Suc d" by (cases depth) auto
    have rest: "upgrade_project d E m1 3 new_version r p1 =
      (if 5 < new_version
       then (case expand_fonts E 0 (fonts m1) p1 of Inl e \<Rightarrow> Inl e | Inr p2 \<Rightarrow> Inr (m1, p2))
       else Inr (m1, p1))" for m1 p1
      using upgrade_project_from_three [of 3 new_version d E m1 r p1] a True d by auto
    from a True have ne: "old_version \<noteq> new_version" "old_version \<noteq> 5" by auto
    show ?thesis
      unfolding d using True ne
      by (simp add: rest split: sum.splits)
  qed
next
  fix x assume "upgrade_project depth E m old_version new_version r p = Inr x"
  from upgrade_project_returns_forward [OF this]
  show "0 < depth" 
    and "old_version = new_version \<or>
       (old_version < new_version \<and> 3 \<le> new_version \<and>
        nat (new_version - max old_version 2) < depth)"
    by simp_all
next
  assume "5 < old_version \<and> new_version < old_version"
  then show "upgrade_project depth E m old_version new_version r p = Inl RecursionError"
    by (simp add: upgrade_project_backwards)
qed

theorem upgrade_project_walk_terminates_witness:
  "(case upgrade_project 1000 example_externals (FontModule_init example_table) 4 7 example_rom
          v5_project of
      Inl e \<Rightarrow> False
    | Inr (m', p') \<Rightarrow>
        m' = FontModule_init example_table \<and>
        (case p' (''Fonts/0'', ''png'') of
           Some (PngFile im') \<Rightarrow> im_w im' = 256 \<and> im_h im' = 128
         | _ \<Rightarrow> False)) \<and>
   upgrade_project 1000 example_externals (FontModule_init example_table) 7 7 example_rom v5_project =
     Inr (FontModule_init example_table, v5_project) \<and>
   upgrade_project 3 example_externals (FontModule_init example_table) 4 7 example_rom v5_project =
     Inl RecursionError"
proof -
  define P where "P = (case expand_fonts example_externals 0 (fonts (FontModule_init example_table)) v5_project of
      Inl e \<Rightarrow> Map.empty | Inr p' \<Rightarrow> p')"
  have e: "expand_fonts example_externals 0 (fonts (FontModule_init example_table)) v5_project = Inr P"
    by (simp add: P_def expand_font_def open_indexed_image_def yml_load_def
          v5_project_def v5_resources_def v5_image_def example_simps
          del: upt_rec_numeral upto_rec_numeral)
  have P: "(case P (''Fonts/0'', ''png'') of
           Some (PngFile im') \<Rightarrow> im_w im' = 256 \<and> im_h im' = 128
         | _ \<Rightarrow> False)"
    using expand_fonts_result [OF e, of 0]
    by (auto simp: FontModule_init_def example_simps)
  have w: "upgrade_project 1000 example_externals (FontModule_init example_table) 4 7 example_rom
      v5_project = Inr (FontModule_init example_table, P)"
    using upgrade_project_walk_terminates
      [of 1000 example_externals "FontModule_init example_table" 7 example_rom v5_project 4]
    by (simp add: e)
  have t: "upgrade_project 1000 example_externals (FontModule_init example_table) 7 7 example_rom
      v5_project = Inr (FontModule_init example_table, v5_project)"
    using upgrade_project_walk_terminates
      [of 1000 example_externals "FontModule_init example_table" 7 example_rom v5_project 4]
    by simp
  have s: "upgrade_project 3 example_externals (FontModule_init example_table) 4 7 example_rom
      v5_project = Inl RecursionError"
    by (simp add: upgrade_project_unfold e)
  from w t s P show ?thesis by simp
qed

section \<open>The rows of the pointer table after a write pass\<close>

lemma append_rows_eq: "append_rows vs n = vs @ replicate (n - length vs) [0, 0, 0, 0]"
proof (induction vs n rule: append_rows.induct)
  case (1 vs n)
  show ?case
  proof (cases "length vs < n")
    case True
    then have "n - length vs = Suc (n - Suc (length vs))" by simp
    with 1 [OF True] True show ?thesis
      by (subst append_rows.simps) (simp add: replicate_app_Cons_same)
  next
    case False
    then show ?thesis by (subst append_rows.simps) simp
  qed
qed

lemma read_rows_shape:
  "read_rows E r offset idxs = Inr rs \<Longrightarrow>
   length rs = length idxs \<and> (\<forall>row\<in>set rs. length row = 4)"
proof (induction idxs arbitrary: rs)
  case Nil
  then show ?case by simp
next
  case (Cons i idxs)
  from Cons.prems obtain bs rest where "read_rows E r offset idxs = Inr rest"
    and rs: "rs = (case row_decode E bs of (a, b, c, d) \<Rightarrow> [a, b, c, d]) # rest"
    by (auto split: sum.splits)
  from Cons.IH [OF this(1)] rs show ?case
    by (auto split: prod.splits)
qed

lemma table_from_block_shape:
  "table_from_block E tbl r offset = Inr loaded \<Longrightarrow>
   num_rows loaded = num_rows tbl \<and> length (rows loaded) = num_rows tbl \<and>
   (\<forall>row\<in>set (rows loaded). length row = 4)"
  by (auto simp: table_from_block_def split: sum.splits dest: read_rows_shape)

lemma table_set_result:
  "table_set tbl i k v = Inr tbl' \<Longrightarrow>
   i < length (rows tbl) \<and> k < length (rows tbl ! i) \<and> num_rows tbl' = num_rows tbl \<and>
   rows tbl' = (rows tbl)[i := (rows tbl ! i)[k := v]]"
  by (auto simp: table_set_def split: if_splits)

text \<open>One pass of the loop body on the table: the four assignments to row \<open>i\<close>.\<close>

lemma four_fields_set:
  assumes "table_set tbl i 0 a = Inr tbl0" "table_set tbl0 i 1 b = Inr tbl1"
    "table_set tbl1 i 2 c = Inr tbl2" "table_set tbl2 i 3 d = Inr tbl3"
  shows "i < length (rows tbl) \<and> 4 \<le> length (rows tbl ! i) \<and> num_rows tbl3 = num_rows tbl \<and>
    rows tbl3 = (rows tbl)[i := [a, b, c, d] @ drop 4 (rows tbl ! i)]"
proof -
  note s0 = table_set_result [OF assms(1)] and s1 = table_set_result [OF assms(2)]
    and s2 = table_set_result [OF assms(3)] and s3 = table_set_result [OF assms(4)]
  from s0 have i: "i < length (rows tbl)" by simp
  from s3 s2 s1 s0 have len: "4 \<le> length (rows tbl ! i)" by simp
  obtain x0 x1 x2 x3 xs where row: "rows tbl ! i = x0 # x1 # x2 # x3 # xs"
  proof (cases "rows tbl ! i")
    case Nil with len show ?thesis by simp
  next
    case c1: (Cons y0 l1)
    show ?thesis
    proof (cases l1)
      case Nil with len c1 show ?thesis by simp
    next
      case c2: (Cons y1 l2)
      show ?thesis
      proof (cases l2)
        case Nil with len c1 c2 show ?thesis by simp
      next
        case c3: (Cons y2 l3)
        show ?thesis
        proof (cases l3)
          case Nil with len c1 c2 c3 show ?thesis by simp
        next
          case (Cons y3 l4)
          with c1 c2 c3 that show ?thesis by simp
        qed
      qed
    qed
  qed
  from s0 s1 s2 s3 i row
  have "rows tbl3 = (rows tbl)[i := [a, b, c, d] @ xs]"
    by simp
  with row i len s0 s1 s2 s3 show ?thesis by simp
qed

lemma four_fields_set_succeeds:
  assumes "i < length (rows tbl)" "4 \<le> length (rows tbl ! i)"
  shows "\<exists>tbl0 tbl1 tbl2 tbl3.
    table_set tbl i 0 a = Inr tbl0 \<and> table_set tbl0 i 1 b = Inr tbl1 \<and>
    table_set tbl1 i 2 c = Inr tbl2 \<and> table_set tbl2 i 3 d = Inr tbl3"
proof -
  from assms(2) have "0 < length (rows tbl ! i)" "1 < length (rows tbl ! i)"
    "2 < length (rows tbl ! i)" "3 < length (rows tbl ! i)" by linarith+
  with assms(1) show ?thesis by (simp add: table_set_def)
qed

lemma to_block_offsets_length:
  "write_fonts_to_rom E i fs tbl r = Inr (tbl', r') \<Longrightarrow> length (to_block_offsets E fs r) = length fs"
proof (induction fs arbitrary: i tbl r)
  case Nil
  then show ?case by simp
next
  case (Cons font rest)
  from Cons.prems obtain offs r1 tbl3 where fb: "font_to_block E font r = Inr (offs, r1)"
    and rest: "write_fonts_to_rom E (Suc i) rest tbl3 r1 = Inr (tbl', r')"
    by (auto split: sum.splits prod.splits)
  from Cons.IH [OF rest] fb show ?case by simp
qed

lemma write_fonts_to_rom_rows:
  "write_fonts_to_rom E i fs tbl r = Inr (tbl', r') \<Longrightarrow>
   num_rows tbl' = num_rows tbl \<and> length (rows tbl') = length (rows tbl) \<and>
   (fs \<noteq> [] \<longrightarrow> i + length fs \<le> length (rows tbl)) \<and>
   (\<forall>k. k < i \<or> i + length fs \<le> k \<longrightarrow> rows tbl' ! k = rows tbl ! k) \<and>
   (\<forall>j<length fs.
      \<exists>graphics_offset widths_offset widths_address graphics_address.
        to_block_offsets E fs r ! j = (graphics_offset, widths_offset) \<and>
        to_snes_address E widths_offset = Inr widths_address \<and>
        to_snes_address E graphics_offset = Inr graphics_address \<and>
        rows tbl' ! (i + j) =
          [widths_address, graphics_address,
           (tile_height (tileset (fs ! j)) * tile_width (tileset (fs ! j))) div 8,
           tile_height (tileset (fs ! j))] @ drop 4 (rows tbl ! (i + j)))"
proof (induction fs arbitrary: i tbl r)
  case Nil
  then show ?case by simp
next
  case (Cons font rest)
  from Cons.prems obtain graphics_offset widths_offset r1 widths_address graphics_address
      tbl0 tbl1 tbl2 tbl3 where
    fb: "font_to_block E font r = Inr ((graphics_offset, widths_offset), r1)" and
    wa: "to_snes_address E widths_offset = Inr widths_address" and
    ga: "to_snes_address E graphics_offset = Inr graphics_address" and
    sets: "table_set tbl i 0 widths_address = Inr tbl0"
      "table_set tbl0 i 1 graphics_address = Inr tbl1"
      "table_set tbl1 i 2 ((tile_height (tileset font) * tile_width (tileset font)) div 8) = Inr tbl2"
      "table_set tbl2 i 3 (tile_height (tileset font)) = Inr tbl3" and
    rest: "write_fonts_to_rom E (Suc i) rest tbl3 r1 = Inr (tbl', r')"
    by (auto split: sum.splits prod.splits)
  note four = four_fields_set [OF sets]
  note IH = Cons.IH [OF rest]
  from four have i: "i < length (rows tbl)" and len3: "length (rows tbl3) = length (rows tbl)"
    by simp_all
  from IH have "\<forall>k. k < Suc i \<or> Suc i + length rest \<le> k \<longrightarrow> rows tbl' ! k = rows tbl3 ! k"
    by blast
  then have "rows tbl' ! i = rows tbl3 ! i" by simp
  with four have row_i: "rows tbl' ! i = [widths_address, graphics_address,
           (tile_height (tileset font) * tile_width (tileset font)) div 8,
           tile_height (tileset font)] @ drop 4 (rows tbl ! i)"
    by simp
  have others: "rows tbl3 ! k = rows tbl ! k" if "k \<noteq> i" for k
    using four that by simp
  show ?case
  proof (intro conjI allI impI)
    show "num_rows tbl' = num_rows tbl" using IH four by simp
    show "length (rows tbl') = length (rows tbl)" using IH four by simp
    show "i + length (font # rest) \<le> length (rows tbl)"
      using IH len3 i by (cases rest) auto
  next
    fix k assume "k < i \<or> i + length (font # rest) \<le> k"
    then have k: "k < Suc i \<or> Suc i + length rest \<le> k" and "k \<noteq> i" by auto
    from IH have "\<forall>k. k < Suc i \<or> Suc i + length rest \<le> k \<longrightarrow> rows tbl' ! k = rows tbl3 ! k"
      by blast
    with k have "rows tbl' ! k = rows tbl3 ! k" by blast
    with others [OF \<open>k \<noteq> i\<close>] show "rows tbl' ! k = rows tbl ! k" by simp
  next
    fix j assume j: "j < length (font # rest)"
    show "\<exists>graphics_offset widths_offset widths_address graphics_address.
        to_block_offsets E (font # rest) r ! j = (graphics_offset, widths_offset) \<and>
        to_snes_address E widths_offset = Inr widths_address \<and>
        to_snes_address E graphics_offset = Inr graphics_address \<and>
        rows tbl' ! (i + j) =
          [widths_address, graphics_address,
           (tile_height (tileset ((font # rest) ! j)) * tile_width (tileset ((font # rest) ! j))) div 8,
           tile_height (tileset ((font # rest) ! j))] @ drop 4 (rows tbl ! (i + j))"
    proof (cases j)
      case 0
      with fb wa ga row_i show ?thesis by simp
    next
      case (Suc j')
      with j have "j' < length rest" by simp
      with IH obtain go wo wad gad where
        "to_block_offsets E rest r1 ! j' = (go, wo)"
        "to_snes_address E wo = Inr wad" "to_snes_address E go = Inr gad"
        "rows tbl' ! (Suc i + j') =
          [wad, gad, (tile_height (tileset (rest ! j')) * tile_width (tileset (rest ! j'))) div 8,
           tile_height (tileset (rest ! j'))] @ drop 4 (rows tbl3 ! (Suc i + j'))"
        by blast
      with Suc fb others [of "Suc i + j'"] show ?thesis by simp
    qed
  qed
qed


lemma write_to_rom_phases:
  assumes "write_to_rom E m r = Inr (m', r')"
  shows "\<exists>table_offset loaded tbl r1 new_table_offset r2 r3 r4.
    from_snes_address E FONT_POINTER_TABLE_OFFSET = Inr table_offset \<and>
    table_from_block E (font_pointer_table m) r table_offset = Inr loaded \<and>
    write_fonts_to_rom E 0 (fonts m)
      (loaded\<lparr>num_rows := length (fonts m),
              rows := append_rows (rows loaded) (length (fonts m))\<rparr>) r = Inr (tbl, r1) \<and>
    rom_allocate E r1 (length (fonts m) * FONT_POINTER_TABLE_ENTRY_SIZE) = Inr (new_table_offset, r2) \<and>
    write_pointers E FONT_POINTER_TABLE_REFERENCES r2 new_table_offset = Inr r3 \<and>
    table_to_block E tbl r3 new_table_offset = Inr r4 \<and>
    write_credits_font_to_rom E (m\<lparr>font_pointer_table := tbl\<rparr>) r4 = Inr r' \<and>
    m' = m\<lparr>font_pointer_table := tbl\<rparr>"
  using assms unfolding write_to_rom_def
  by (simp split: sum.splits prod.splits)

lemma write_to_rom_rows:
  assumes "write_to_rom E m r = Inr (m', r')"
  shows "num_rows (font_pointer_table m') = length (fonts m) \<and>
    length (rows (font_pointer_table m')) = max (num_rows (font_pointer_table m)) (length (fonts m)) \<and>
    (\<forall>i<length (fonts m).
      \<exists>graphics_offset widths_offset widths_address graphics_address.
        to_block_offsets E (fonts m) r ! i = (graphics_offset, widths_offset) \<and>
        to_snes_address E widths_offset = Inr widths_address \<and>
        to_snes_address E graphics_offset = Inr graphics_address \<and>
        rows (font_pointer_table m') ! i =
          [widths_address, graphics_address,
           (tile_height (tileset (fonts m ! i)) * tile_width (tileset (fonts m ! i))) div 8,
           tile_height (tileset (fonts m ! i))])"
proof -
  from write_to_rom_phases [OF assms] obtain table_offset loaded tbl r1 where
    loaded: "table_from_block E (font_pointer_table m) r table_offset = Inr loaded" and
    loop: "write_fonts_to_rom E 0 (fonts m)
      (loaded\<lparr>num_rows := length (fonts m),
              rows := append_rows (rows loaded) (length (fonts m))\<rparr>) r = Inr (tbl, r1)" and
    m': "m' = m\<lparr>font_pointer_table := tbl\<rparr>"
    by blast
  define start where "start = loaded\<lparr>num_rows := length (fonts m),
              rows := append_rows (rows loaded) (length (fonts m))\<rparr>"
  note shape = table_from_block_shape [OF loaded]
  have rows_start: "rows start = rows loaded @
      replicate (length (fonts m) - num_rows (font_pointer_table m)) [0, 0, 0, 0]"
    using shape by (simp add: start_def append_rows_eq)
  have four: "\<forall>row\<in>set (rows start). length row = 4"
    using shape by (auto simp: rows_start)
  note loop' = write_fonts_to_rom_rows [OF loop [folded start_def]]
  have len: "length (rows tbl) = max (num_rows (font_pointer_table m)) (length (fonts m))"
    using loop' shape by (simp add: rows_start)
  have "num_rows tbl = length (fonts m)" using loop' by (simp add: start_def)
  moreover have "\<exists>graphics_offset widths_offset widths_address graphics_address.
        to_block_offsets E (fonts m) r ! i = (graphics_offset, widths_offset) \<and>
        to_snes_address E widths_offset = Inr widths_address \<and>
        to_snes_address E graphics_offset = Inr graphics_address \<and>
        rows tbl ! i =
          [widths_address, graphics_address,
           (tile_height (tileset (fonts m ! i)) * tile_width (tileset (fonts m ! i))) div 8,
           tile_height (tileset (fonts m ! i))]" if i: "i < length (fonts m)" for i
  proof -
    from loop' i obtain go wo wa ga where
      a: "to_block_offsets E (fonts m) r ! i = (go, wo)"
        "to_snes_address E wo = Inr wa" "to_snes_address E go = Inr ga" and
      row: "rows tbl ! (0 + i) =
          [wa, ga, (tile_height (tileset (fonts m ! i)) * tile_width (tileset (fonts m ! i))) div 8,
           tile_height (tileset (fonts m ! i))] @ drop 4 (rows start ! (0 + i))"
      by blast
    from i have "fonts m \<noteq> []" by auto
    with loop' i have "i < length (rows start)" by simp
    with four have "length (rows start ! i) = 4" by simp
    with row a show ?thesis by simp
  qed
  ultimately show ?thesis using len by (simp add: m')
qed

text \<open>
  Claim C7. After a write pass that returns, row \<open>i\<close> of the pointer table holds
  exactly four fields for font \<open>i\<close>, in this order: the banked address of the offset
  where the font's widths were written, the banked address of the offset where its
  tileset was written, \<open>(tile_height * tile_width) // 8\<close>, and \<open>tile_height\<close>.
\<close>

theorem pointer_table_row_fields:
  assumes "write_to_rom E m r = Inr (m', r')" and "i < length (fonts m)"
  shows "\<exists>graphics_offset widths_offset widths_address graphics_address.
        to_block_offsets E (fonts m) r ! i = (graphics_offset, widths_offset) \<and>
        to_snes_address E widths_offset = Inr widths_address \<and>
        to_snes_address E graphics_offset = Inr graphics_address \<and>
        rows (font_pointer_table m') ! i =
          [widths_address, graphics_address,
           (tile_height (tileset (fonts m ! i)) * tile_width (tileset (fonts m ! i))) div 8,
           tile_height (tileset (fonts m ! i))]"
  using write_to_rom_rows [OF assms(1)] assms(2) by blast


section \<open>Patching the pointer references\<close>


lemma rom_write_result:
  assumes "rom_write r offset bs = Inr r'"
  shows "offset + length bs \<le> length (rom_data r) \<and> rom_free r' = rom_free r \<and>
    length (rom_data r') = length (rom_data r) \<and>
    (\<forall>a<length (rom_data r). rom_data r' ! a =
       (if offset \<le> a \<and> a < offset + length bs then bs ! (a - offset) else rom_data r ! a))"
proof -
  from assms have fits: "offset + length bs \<le> length (rom_data r)"
    and r': "r' = r\<lparr>rom_data := take offset (rom_data r) @ bs @ drop (offset + length bs) (rom_data r)\<rparr>"
    by (auto simp: rom_write_def split: if_splits)
  have "rom_data r' ! a =
       (if offset \<le> a \<and> a < offset + length bs then bs ! (a - offset) else rom_data r ! a)"
    if "a < length (rom_data r)" for a
    using fits that by (auto simp: r' nth_append min_def)
  with fits show ?thesis by (simp add: r')
qed


lemma pointer_write_eq:
  "pointer_write p r address = rom_write r (pointer_site p) (address_bytes (address + patch_offset p))"
  by (cases p) simp_all







section \<open>Writing twice\<close>

lemma lockstep_refl: "aligned r1 r2 \<Longrightarrow> lockstep r1 r1 r2 r2"
  by (simp add: lockstep_def)

lemma lockstep_aligned: "lockstep r1 r1' r2 r2' \<Longrightarrow> aligned r1' r2'"
  by (simp add: lockstep_def)

lemma lockstep_trans:
  assumes "lockstep r1 r1' r2 r2'" "lockstep r1' r1'' r2' r2''"
  shows "lockstep r1 r1'' r2 r2''"
  unfolding lockstep_def
proof (intro conjI allI impI)
  show "aligned r1'' r2''" using assms(2) by (simp add: lockstep_def)
  show "length (rom_data r1'') = length (rom_data r1)" using assms by (simp add: lockstep_def)
next
  fix a assume a: "a < length (rom_data r1)"
  with assms(1) have a': "a < length (rom_data r1')" by (simp add: lockstep_def)
  from assms(1) a have one: "rom_data r1' ! a = rom_data r2' ! a \<or>
        (rom_data r1' ! a = rom_data r1 ! a \<and> rom_data r2' ! a = rom_data r2 ! a)"
    by (simp add: lockstep_def)
  from assms(2) a' have two: "rom_data r1'' ! a = rom_data r2'' ! a \<or>
        (rom_data r1'' ! a = rom_data r1' ! a \<and> rom_data r2'' ! a = rom_data r2' ! a)"
    by (simp add: lockstep_def)
  from one two show "rom_data r1'' ! a = rom_data r2'' ! a \<or>
        (rom_data r1'' ! a = rom_data r1 ! a \<and> rom_data r2'' ! a = rom_data r2 ! a)"
    by auto
qed

lemma rom_write_lockstep:
  assumes "rom_write r1 offset bs = Inr r1'" "aligned r1 r2"
  shows "\<exists>r2'. rom_write r2 offset bs = Inr r2' \<and> lockstep r1 r1' r2 r2'"
proof -
  note w1 = rom_write_result [OF assms(1)]
  from w1 assms(2) obtain r2' where w: "rom_write r2 offset bs = Inr r2'"
    by (auto simp: rom_write_def aligned_def)
  note w2 = rom_write_result [OF w]
  from w1 w2 assms(2) have "lockstep r1 r1' r2 r2'"
    by (simp add: lockstep_def aligned_def)
  with w show ?thesis by blast
qed

lemma rom_allocate_lockstep:
  assumes "rom_allocate E r1 n = Inr (x, r1')" "aligned r1 r2"
  shows "\<exists>r2'. rom_allocate E r2 n = Inr (x, r2') \<and> lockstep r1 r1' r2 r2'"
  using assms
  by (auto simp: rom_allocate_def aligned_def lockstep_def split: option.splits)

lemma font_to_block_lockstep:
  assumes "font_to_block E font r1 = Inr (x, r1')" "aligned r1 r2"
  shows "\<exists>r2'. font_to_block E font r2 = Inr (x, r2') \<and> lockstep r1 r1' r2 r2'"
proof -
  obtain tileset_bytes widths_bytes where enc: "font_encode E font = (tileset_bytes, widths_bytes)"
    by (cases "font_encode E font")
  from assms(1) enc obtain graphics_offset a1 b1 widths_offset c1 where
    s1: "rom_allocate E r1 (length tileset_bytes) = Inr (graphics_offset, a1)"
      "rom_write a1 graphics_offset tileset_bytes = Inr b1"
      "rom_allocate E b1 (length widths_bytes) = Inr (widths_offset, c1)"
      "rom_write c1 widths_offset widths_bytes = Inr r1'" and
    x: "x = (graphics_offset, widths_offset)"
    by (auto simp: font_to_block_def split: sum.splits prod.splits)
  from rom_allocate_lockstep [OF s1(1) assms(2)] obtain a2 where
    a2: "rom_allocate E r2 (length tileset_bytes) = Inr (graphics_offset, a2)" "lockstep r1 a1 r2 a2"
    by blast
  from rom_write_lockstep [OF s1(2) lockstep_aligned [OF a2(2)]] obtain b2 where
    b2: "rom_write a2 graphics_offset tileset_bytes = Inr b2" "lockstep a1 b1 a2 b2"
    by blast
  from rom_allocate_lockstep [OF s1(3) lockstep_aligned [OF b2(2)]] obtain c2 where
    c2: "rom_allocate E b2 (length widths_bytes) = Inr (widths_offset, c2)" "lockstep b1 c1 b2 c2"
    by blast
  from rom_write_lockstep [OF s1(4) lockstep_aligned [OF c2(2)]] obtain r2' where
    d2: "rom_write c2 widths_offset widths_bytes = Inr r2'" "lockstep c1 r1' c2 r2'"
    by blast
  have "font_to_block E font r2 = Inr (x, r2')"
    by (simp add: font_to_block_def enc a2(1) b2(1) c2(1) d2(1) x)
  moreover have "lockstep r1 r1' r2 r2'"
    using a2(2) b2(2) c2(2) d2(2) by (blast intro: lockstep_trans)
  ultimately show ?thesis by blast
qed

lemma write_pointers_lockstep:
  "write_pointers E ps r1 new_table_offset = Inr r1' \<Longrightarrow> aligned r1 r2 \<Longrightarrow>
   \<exists>r2'. write_pointers E ps r2 new_table_offset = Inr r2' \<and> lockstep r1 r1' r2 r2'"
proof (induction ps arbitrary: r1 r2)
  case Nil
  then show ?case by (simp add: lockstep_refl)
next
  case (Cons q qs)
  from Cons.prems(1) obtain address a1 where
    address: "to_snes_address E new_table_offset = Inr address" and
    q: "pointer_write q r1 address = Inr a1" and
    qs: "write_pointers E qs a1 new_table_offset = Inr r1'"
    by (auto split: sum.splits)
  from rom_write_lockstep [OF q [unfolded pointer_write_eq] Cons.prems(2)] obtain a2 where
    a2: "pointer_write q r2 address = Inr a2" "lockstep r1 a1 r2 a2"
    unfolding pointer_write_eq by blast
  from Cons.IH [OF qs lockstep_aligned [OF a2(2)]] obtain r2' where
    r2': "write_pointers E qs a2 new_table_offset = Inr r2'" "lockstep a1 r1' a2 r2'"
    by blast
  have "write_pointers E (q # qs) r2 new_table_offset = Inr r2'"
    by (simp add: address a2(1) r2'(1))
  moreover have "lockstep r1 r1' r2 r2'"
    using a2(2) r2'(2) by (rule lockstep_trans)
  ultimately show ?case by blast
qed

lemma write_rows_lockstep:
  "write_rows E rs1 offset idxs r1 = Inr r1' \<Longrightarrow> aligned r1 r2 \<Longrightarrow>
   \<forall>i\<in>set idxs. i < length rs2 \<and> rs2 ! i = rs1 ! i \<Longrightarrow>
   \<exists>r2'. write_rows E rs2 offset idxs r2 = Inr r2' \<and> lockstep r1 r1' r2 r2'"
proof (induction idxs arbitrary: r1 r2)
  case Nil
  then show ?case by (simp add: lockstep_refl)
next
  case (Cons i idxs)
  from Cons.prems(1) obtain a1 where
    i: "rom_write r1 (offset + i * FONT_POINTER_TABLE_ENTRY_SIZE) (row_encode E (rs1 ! i)) = Inr a1" and
    rest: "write_rows E rs1 offset idxs a1 = Inr r1'"
    by (auto split: sum.splits if_splits)
  from rom_write_lockstep [OF i Cons.prems(2)] obtain a2 where
    a2: "rom_write r2 (offset + i * FONT_POINTER_TABLE_ENTRY_SIZE) (row_encode E (rs1 ! i)) = Inr a2"
      "lockstep r1 a1 r2 a2"
    by blast
  from Cons.prems(3) have later: "\<forall>i\<in>set idxs. i < length rs2 \<and> rs2 ! i = rs1 ! i"
    and here: "i < length rs2" "rs2 ! i = rs1 ! i" by simp_all
  from Cons.IH [OF rest lockstep_aligned [OF a2(2)] later] obtain r2' where
    r2': "write_rows E rs2 offset idxs a2 = Inr r2'" "lockstep a1 r1' a2 r2'"
    by blast
  have "write_rows E rs2 offset (i # idxs) r2 = Inr r2'"
    by (simp add: here a2(1) r2'(1))
  moreover have "lockstep r1 r1' r2 r2'"
    using a2(2) r2'(2) by (rule lockstep_trans)
  ultimately show ?case by blast
qed

lemma credits_font_to_block_lockstep:
  assumes "credits_font_to_block E c r1 tileset_asm_pointer_offset palette_offset = Inr r1'"
    "aligned r1 r2"
  shows "\<exists>r2'. credits_font_to_block E c r2 tileset_asm_pointer_offset palette_offset = Inr r2' \<and>
    lockstep r1 r1' r2 r2'"
proof -
  obtain graphics_bytes palette_bytes where enc: "credits_encode E c = (graphics_bytes, palette_bytes)"
    by (cases "credits_encode E c")
  from assms(1) enc obtain graphics_offset a1 b1 address c1 where
    s1: "rom_allocate E r1 (length graphics_bytes) = Inr (graphics_offset, a1)"
      "rom_write a1 graphics_offset graphics_bytes = Inr b1"
      "to_snes_address E graphics_offset = Inr address"
      "rom_write b1 tileset_asm_pointer_offset (address_bytes address) = Inr c1"
      "rom_write c1 palette_offset palette_bytes = Inr r1'"
    by (auto simp: credits_font_to_block_def split: sum.splits prod.splits)
  from rom_allocate_lockstep [OF s1(1) assms(2)] obtain a2 where
    a2: "rom_allocate E r2 (length graphics_bytes) = Inr (graphics_offset, a2)" "lockstep r1 a1 r2 a2"
    by blast
  from rom_write_lockstep [OF s1(2) lockstep_aligned [OF a2(2)]] obtain b2 where
    b2: "rom_write a2 graphics_offset graphics_bytes = Inr b2" "lockstep a1 b1 a2 b2"
    by blast
  from rom_write_lockstep [OF s1(4) lockstep_aligned [OF b2(2)]] obtain c2 where
    c2: "rom_write b2 tileset_asm_pointer_offset (address_bytes address) = Inr c2" "lockstep b1 c1 b2 c2"
    by blast
  from rom_write_lockstep [OF s1(5) lockstep_aligned [OF c2(2)]] obtain r2' where
    d2: "rom_write c2 palette_offset palette_bytes = Inr r2'" "lockstep c1 r1' c2 r2'"
    by blast
  have "credits_font_to_block E c r2 tileset_asm_pointer_offset palette_offset = Inr r2'"
    by (simp add: credits_font_to_block_def enc a2(1) b2(1) s1(3) c2(1) d2(1))
  moreover have "lockstep r1 r1' r2 r2'"
    using a2(2) b2(2) c2(2) d2(2) by (blast intro: lockstep_trans)
  ultimately show ?thesis by blast
qed

lemma read_rows_succeeds:
  "\<forall>i\<in>set idxs. offset + i * FONT_POINTER_TABLE_ENTRY_SIZE + FONT_POINTER_TABLE_ENTRY_SIZE
      \<le> length (rom_data r) \<Longrightarrow>
   \<exists>rs. read_rows E r offset idxs = Inr rs"
  by (induction idxs) (auto simp: rom_read_def)

lemma table_from_block_succeeds:
  assumes "offset + num_rows tbl * FONT_POINTER_TABLE_ENTRY_SIZE \<le> length (rom_data r)"
  shows "\<exists>loaded. table_from_block E tbl r offset = Inr loaded"
proof -
  have "offset + i * FONT_POINTER_TABLE_ENTRY_SIZE + FONT_POINTER_TABLE_ENTRY_SIZE
      \<le> length (rom_data r)" if "i < num_rows tbl" for i
  proof -
    from that have "Suc i \<le> num_rows tbl" by simp
    then have "Suc i * FONT_POINTER_TABLE_ENTRY_SIZE \<le> num_rows tbl * FONT_POINTER_TABLE_ENTRY_SIZE"
      by (rule mult_le_mono1)
    with assms show ?thesis by simp
  qed
  then have "\<exists>rs. read_rows E r offset [0..<num_rows tbl] = Inr rs"
    by (intro read_rows_succeeds) simp
  then show ?thesis by (auto simp: table_from_block_def)
qed

lemma write_fonts_to_rom_lockstep:
  "write_fonts_to_rom E i fs tbl1 r1 = Inr (tbl1', r1') \<Longrightarrow> aligned r1 r2 \<Longrightarrow>
   \<forall>j. i \<le> j \<and> j < i + length fs \<longrightarrow> j < length (rows tbl2) \<and> 4 \<le> length (rows tbl2 ! j) \<Longrightarrow>
   \<exists>tbl2' r2'. write_fonts_to_rom E i fs tbl2 r2 = Inr (tbl2', r2') \<and> lockstep r1 r1' r2 r2' \<and>
     to_block_offsets E fs r2 = to_block_offsets E fs r1"
proof (induction fs arbitrary: i tbl1 tbl2 r1 r2)
  case Nil
  then show ?case by (simp add: lockstep_refl)
next
  case (Cons font rest)
  from Cons.prems(1) obtain graphics_offset widths_offset a1 widths_address graphics_address
      t0 t1 t2 t3 where
    fb: "font_to_block E font r1 = Inr ((graphics_offset, widths_offset), a1)" and
    wa: "to_snes_address E widths_offset = Inr widths_address" and
    ga: "to_snes_address E graphics_offset = Inr graphics_address" and
    rest: "write_fonts_to_rom E (Suc i) rest t3 a1 = Inr (tbl1', r1')"
    by (auto split: sum.splits prod.splits)
  from font_to_block_lockstep [OF fb Cons.prems(2)] obtain a2 where
    a2: "font_to_block E font r2 = Inr ((graphics_offset, widths_offset), a2)" "lockstep r1 a1 r2 a2"
    by blast
  from Cons.prems(3) have here: "i < length (rows tbl2)" "4 \<le> length (rows tbl2 ! i)"
    by simp_all
  from four_fields_set_succeeds [OF here] obtain u0 u1 u2 u3 where
    sets: "table_set tbl2 i 0 widths_address = Inr u0"
      "table_set u0 i 1 graphics_address = Inr u1"
      "table_set u1 i 2 ((tile_height (tileset font) * tile_width (tileset font)) div 8) = Inr u2"
      "table_set u2 i 3 (tile_height (tileset font)) = Inr u3"
    by blast
  from four_fields_set [OF sets]
  have rows3: "rows u3 = (rows tbl2)[i := [widths_address, graphics_address,
      (tile_height (tileset font) * tile_width (tileset font)) div 8,
      tile_height (tileset font)] @ drop 4 (rows tbl2 ! i)]"
    by simp
  have later: "\<forall>j. Suc i \<le> j \<and> j < Suc i + length rest \<longrightarrow>
      j < length (rows u3) \<and> 4 \<le> length (rows u3 ! j)"
    using Cons.prems(3) by (simp add: rows3)
  from Cons.IH [OF rest lockstep_aligned [OF a2(2)] later] obtain tbl2' r2' where
    r2': "write_fonts_to_rom E (Suc i) rest u3 a2 = Inr (tbl2', r2')" "lockstep a1 r1' a2 r2'"
      "to_block_offsets E rest a2 = to_block_offsets E rest a1"
    by blast
  have "write_fonts_to_rom E i (font # rest) tbl2 r2 = Inr (tbl2', r2')"
    using a2(1) wa ga sets r2'(1) by simp
  moreover have "lockstep r1 r1' r2 r2'"
    using a2(2) r2'(2) by (rule lockstep_trans)
  moreover have "to_block_offsets E (font # rest) r2 = to_block_offsets E (font # rest) r1"
    by (simp add: fb a2(1) r2'(3))
  ultimately show ?case by blast
qed

lemma font_to_block_length:
  assumes "font_to_block E font r = Inr (x, r')"
  shows "length (rom_data r') = length (rom_data r)"
proof -
  have "aligned r r" by (simp add: aligned_def)
  from font_to_block_lockstep [OF assms this] assms show ?thesis
    by (auto simp: lockstep_def)
qed

lemma write_fonts_to_rom_length:
  "write_fonts_to_rom E i fs tbl r = Inr (tbl', r') \<Longrightarrow> length (rom_data r') = length (rom_data r)"
proof (induction fs arbitrary: i tbl r)
  case Nil
  then show ?case by simp
next
  case (Cons font rest)
  from Cons.prems obtain x a t3 where "font_to_block E font r = Inr (x, a)"
    and "write_fonts_to_rom E (Suc i) rest t3 a = Inr (tbl', r')"
    by (auto split: sum.splits prod.splits)
  with Cons.IH [OF this(2)] font_to_block_length [OF this(1)] show ?case by simp
qed

lemma write_rows_length:
  "write_rows E rs offset idxs r = Inr r' \<Longrightarrow> length (rom_data r') = length (rom_data r)"
proof (induction idxs arbitrary: r)
  case Nil
  then show ?case by simp
next
  case (Cons i idxs)
  from Cons.prems obtain a where
    "rom_write r (offset + i * FONT_POINTER_TABLE_ENTRY_SIZE) (row_encode E (rs ! i)) = Inr a"
    and "write_rows E rs offset idxs a = Inr r'"
    by (auto split: sum.splits if_splits)
  with Cons.IH [OF this(2)] rom_write_result [OF this(1)] show ?case by simp
qed

lemma write_pointers_length:
  assumes "write_pointers E ps r new_table_offset = Inr r'"
  shows "length (rom_data r') = length (rom_data r)"
proof -
  have "aligned r r" by (simp add: aligned_def)
  from write_pointers_lockstep [OF assms this] assms show ?thesis
    by (auto simp: lockstep_def)
qed

lemma credits_font_to_block_length:
  assumes "credits_font_to_block E c r tileset_asm_pointer_offset palette_offset = Inr r'"
  shows "length (rom_data r') = length (rom_data r)"
proof -
  have "aligned r r" by (simp add: aligned_def)
  from credits_font_to_block_lockstep [OF assms this] assms show ?thesis
    by (auto simp: lockstep_def)
qed

text \<open>
  Claim C6. After a write pass that returns, on a ROM that holds the region of one row
  per font at the table's original offset, a second pass with the same module, on the ROM
  the first pass left and with the allocator reset to the free ranges the first pass
  started from, returns as well and leaves every byte of the ROM as the first pass left
  it.
\<close>

theorem write_to_rom_twice_same_bytes:
  assumes run: "write_to_rom E m r = Inr (m1, r1)"
    and offset: "from_snes_address E FONT_POINTER_TABLE_OFFSET = Inr table_offset"
    and fits: "table_offset + length (fonts m) * FONT_POINTER_TABLE_ENTRY_SIZE \<le> length (rom_data r)"
  shows "\<exists>m2 r2. write_to_rom E m1 (r1\<lparr>rom_free := rom_free r\<rparr>) = Inr (m2, r2) \<and>
    rom_data r2 = rom_data r1"
proof -
  define n where "n = length (fonts m)"
  from write_to_rom_phases [OF run] offset obtain loaded tbl1 q1 new_table_offset q2 q3 q4 where
    ph: "table_from_block E (font_pointer_table m) r table_offset = Inr loaded"
    "write_fonts_to_rom E 0 (fonts m)
      (loaded\<lparr>num_rows := n, rows := append_rows (rows loaded) n\<rparr>) r = Inr (tbl1, q1)"
    "rom_allocate E q1 (n * FONT_POINTER_TABLE_ENTRY_SIZE) = Inr (new_table_offset, q2)"
    "write_pointers E FONT_POINTER_TABLE_REFERENCES q2 new_table_offset = Inr q3"
    "table_to_block E tbl1 q3 new_table_offset = Inr q4"
    "write_credits_font_to_rom E (m\<lparr>font_pointer_table := tbl1\<rparr>) q4 = Inr r1"
    and m1: "m1 = m\<lparr>font_pointer_table := tbl1\<rparr>"
    unfolding n_def by auto
  note rows1 = write_to_rom_rows [OF run, folded n_def]
  from rows1 have nr1: "num_rows tbl1 = n" by (simp add: m1)
  define s where "s = r1\<lparr>rom_free := rom_free r\<rparr>"

  text \<open>The whole first pass keeps the size of the buffer.\<close>
  have al0: "aligned r r" by (simp add: aligned_def)
  from ph(2) have l1: "length (rom_data q1) = length (rom_data r)"
    by (rule write_fonts_to_rom_length)
  from ph(3) have l2: "length (rom_data q2) = length (rom_data q1)"
    by (auto simp: rom_allocate_def split: option.splits)
  from ph(4) have l3: "length (rom_data q3) = length (rom_data q2)"
    by (rule write_pointers_length)
  from ph(5) have l4: "length (rom_data q4) = length (rom_data q3)"
    unfolding table_to_block_def by (rule write_rows_length)
  from ph(6) have l5: "length (rom_data r1) = length (rom_data q4)"
    unfolding write_credits_font_to_rom_def by (rule credits_font_to_block_length)
  from l1 l2 l3 l4 l5 have len: "length (rom_data r1) = length (rom_data r)" by simp
  then have al: "aligned r s" by (simp add: aligned_def s_def)

  text \<open>The second pass, step by step beside the first.\<close>
  from fits len have "table_offset + num_rows tbl1 * FONT_POINTER_TABLE_ENTRY_SIZE \<le> length (rom_data s)"
    by (simp add: nr1 n_def s_def)
  from table_from_block_succeeds [OF this] obtain loaded2 where
    loaded2: "table_from_block E tbl1 s table_offset = Inr loaded2" by blast
  note shape2 = table_from_block_shape [OF loaded2]
  define start2 where "start2 = loaded2\<lparr>num_rows := n, rows := append_rows (rows loaded2) n\<rparr>"
  have rows_start2: "rows start2 = rows loaded2"
    using shape2 by (simp add: start2_def append_rows_eq nr1)
  have four2: "\<forall>j. 0 \<le> j \<and> j < 0 + length (fonts m) \<longrightarrow>
      j < length (rows start2) \<and> 4 \<le> length (rows start2 ! j)"
    using shape2 by (simp add: rows_start2 nr1 n_def)
  from write_fonts_to_rom_lockstep [OF ph(2) al four2] obtain tbl2 p1 where
    loop2: "write_fonts_to_rom E 0 (fonts m) start2 s = Inr (tbl2, p1)" and
    ls1: "lockstep r q1 s p1" and
    offs: "to_block_offsets E (fonts m) s = to_block_offsets E (fonts m) r"
    by blast
  note rows2 = write_fonts_to_rom_rows [OF loop2]
  have nr2: "num_rows tbl2 = n" using rows2 by (simp add: start2_def)
  have len2: "length (rows tbl2) = n"
    using rows2 shape2 by (simp add: rows_start2 nr1)
  have same_rows: "rows tbl2 ! i = rows tbl1 ! i" if i: "i < n" for i
  proof -
    from rows1 i obtain go wo wa ga where
      a: "to_block_offsets E (fonts m) r ! i = (go, wo)"
        "to_snes_address E wo = Inr wa" "to_snes_address E go = Inr ga"
        "rows tbl1 ! i = [wa, ga,
           (tile_height (tileset (fonts m ! i)) * tile_width (tileset (fonts m ! i))) div 8,
           tile_height (tileset (fonts m ! i))]"
      by (auto simp: m1)
    from rows2 i obtain go' wo' wa' ga' where
      b: "to_block_offsets E (fonts m) s ! i = (go', wo')"
        "to_snes_address E wo' = Inr wa'" "to_snes_address E go' = Inr ga'"
        "rows tbl2 ! (0 + i) = [wa', ga',
           (tile_height (tileset (fonts m ! i)) * tile_width (tileset (fonts m ! i))) div 8,
           tile_height (tileset (fonts m ! i))] @ drop 4 (rows start2 ! (0 + i))"
      unfolding n_def by blast
    from shape2 i have "length (rows start2 ! i) = 4"
      by (simp add: rows_start2 nr1)
    with a b offs show ?thesis by simp
  qed
  from rom_allocate_lockstep [OF ph(3) lockstep_aligned [OF ls1]] obtain p2 where
    p2: "rom_allocate E p1 (n * FONT_POINTER_TABLE_ENTRY_SIZE) = Inr (new_table_offset, p2)"
      "lockstep q1 q2 p1 p2"
    by blast
  from write_pointers_lockstep [OF ph(4) lockstep_aligned [OF p2(2)]] obtain p3 where
    p3: "write_pointers E FONT_POINTER_TABLE_REFERENCES p2 new_table_offset = Inr p3"
      "lockstep q2 q3 p2 p3"
    by blast
  have "\<forall>i\<in>set [0..<n]. i < length (rows tbl2) \<and> rows tbl2 ! i = rows tbl1 ! i"
    using same_rows len2 by simp
  from write_rows_lockstep [OF ph(5) [unfolded table_to_block_def nr1] lockstep_aligned [OF p3(2)] this]
  obtain p4 where
    p4: "table_to_block E tbl2 p3 new_table_offset = Inr p4" "lockstep q3 q4 p3 p4"
    unfolding table_to_block_def nr2 by blast
  from credits_font_to_block_lockstep
    [OF ph(6) [unfolded write_credits_font_to_rom_def] lockstep_aligned [OF p4(2)]]
  obtain r2 where
    r2: "write_credits_font_to_rom E (m1\<lparr>font_pointer_table := tbl2\<rparr>) p4 = Inr r2"
      "lockstep q4 r1 p4 r2"
    unfolding write_credits_font_to_rom_def by (auto simp: m1)
  have run2: "write_to_rom E m1 s = Inr (m1\<lparr>font_pointer_table := tbl2\<rparr>, r2)"
    using offset loaded2 loop2 p2(1) p3(1) p4(1) r2(1)
    by (simp add: write_to_rom_def m1 start2_def n_def)
  have whole: "lockstep r r1 s r2"
    using ls1 p2(2) p3(2) p4(2) r2(2) by (blast intro: lockstep_trans)
  have "rom_data r2 = rom_data r1"
  proof (rule nth_equalityI)
    from whole len show "length (rom_data r2) = length (rom_data r1)"
      by (simp add: lockstep_def aligned_def)
  next
    fix a assume "a < length (rom_data r2)"
    with whole len have "a < length (rom_data r)" by (simp add: lockstep_def aligned_def)
    with whole show "rom_data r2 ! a = rom_data r1 ! a"
      by (auto simp: lockstep_def s_def)
  qed
  with run2 show ?thesis unfolding s_def by blast
qed

section \<open>The pointer references in the ROM that a write pass returns\<close>













section \<open>A write pass on the small instance\<close>

lemmas rom_simps =
  write_to_rom_def table_from_block_def table_to_block_def table_set_def
  font_to_block_def credits_font_to_block_def write_credits_font_to_rom_def
  rom_read_def rom_write_def rom_allocate_def address_bytes_def
  FONT_POINTER_TABLE_REFERENCES_def FONT_POINTER_TABLE_OFFSET_def
  FONT_POINTER_TABLE_ENTRY_SIZE_def CREDITS_GRAPHICS_ASM_POINTER_def
  CREDITS_PALETTES_ADDRESS_def
  example_externals_def example_font_def example_rom_def grown_module_def
  append_rows_eq

lemma grown_pass: "\<exists>m' r'. write_to_rom example_externals grown_module example_rom = Inr (m', r')"
  by (simp add: rom_simps)

lemma grown_offsets:
  "to_block_offsets example_externals (fonts grown_module) example_rom =
     [(0x300000, 0x300001), (0x300001, 0x300002)]"
  by (simp add: rom_simps)

theorem pointer_table_row_fields_witness:
  "(case write_to_rom example_externals grown_module example_rom of
      Inl e \<Rightarrow> False
    | Inr (m', r') \<Rightarrow> rows (font_pointer_table m') ! 0 = [0xF00001, 0xF00000, 32, 16])"
proof -
  from grown_pass obtain m' r' where
    run: "write_to_rom example_externals grown_module example_rom = Inr (m', r')" by blast
  have i: "0 < length (fonts grown_module)" by (simp add: grown_module_def)
  from pointer_table_row_fields [OF run i] obtain go wo wa ga where
    a: "to_block_offsets example_externals (fonts grown_module) example_rom ! 0 = (go, wo)"
      "to_snes_address example_externals wo = Inr wa"
      "to_snes_address example_externals go = Inr ga"
      "rows (font_pointer_table m') ! 0 =
         [wa, ga, (tile_height (tileset (fonts grown_module ! 0)) *
                   tile_width (tileset (fonts grown_module ! 0))) div 8,
          tile_height (tileset (fonts grown_module ! 0))]"
    by blast
  from a(1) have "go = 0x300000" "wo = 0x300001" by (simp_all add: grown_offsets)
  with a(2,3) have "wa = 0xF00001" "ga = 0xF00000" by (auto simp: example_externals_def)
  with a(4) have "rows (font_pointer_table m') ! 0 = [0xF00001, 0xF00000, 32, 16]"
    by (simp add: grown_module_def example_font_def)
  then show ?thesis by (simp add: run)
qed


theorem write_to_rom_twice_same_bytes_witness:
  "(case write_to_rom example_externals grown_module example_rom of
      Inl e \<Rightarrow> False
    | Inr (m1, r1) \<Rightarrow>
        (case write_to_rom example_externals m1 (r1\<lparr>rom_free := rom_free example_rom\<rparr>) of
           Inl e \<Rightarrow> False
         | Inr (m2, r2) \<Rightarrow> rom_data r2 = rom_data r1))"
proof -
  from grown_pass obtain m1 r1 where
    run: "write_to_rom example_externals grown_module example_rom = Inr (m1, r1)" by blast
  have offset: "from_snes_address example_externals FONT_POINTER_TABLE_OFFSET = Inr 0x3F054"
    by (simp add: example_externals_def FONT_POINTER_TABLE_OFFSET_def)
  have fits: "0x3F054 + length (fonts grown_module) * FONT_POINTER_TABLE_ENTRY_SIZE
      \<le> length (rom_data example_rom)"
    by (simp add: grown_module_def FONT_POINTER_TABLE_ENTRY_SIZE_def example_rom_def)
  from write_to_rom_twice_same_bytes [OF run offset fits] show ?thesis
    by (auto simp: run)
qed






end
